theory Spec2Isabelle
  imports Main "HOL-Library.Word" "HOL-Library.AList"
begin

section \<open>The social graph core\<close>

text \<open>
  A shallow embedding of \<^verbatim>\<open>Source/Services/Social/Manager/social_graph.cpp\<close>:
  the classes \<^verbatim>\<open>social_graph\<close>, \<^verbatim>\<open>user_buffers_holder\<close> and
  \<^verbatim>\<open>event_queue\<close>. Every member function becomes a function on an explicit state;
  a dereference of a null or stale pointer, which is undefined behaviour in the C++, is
  an error value. The mutexes are not modelled: each member function is one atomic step.
\<close>

subsection \<open>Errors\<close>

datatype error =
    Null_dereference
  | Dangling_pointer
  | Uninitialised_read
  | Empty_queue

fun bind_res :: "error + 'a \<Rightarrow> ('a \<Rightarrow> error + 'b) \<Rightarrow> error + 'b" where
  "bind_res (Inl e) f = Inl e"
| "bind_res (Inr x) f = f x"

subsection \<open>Data carried by events\<close>

type_synonym xuid = "64 word"

text \<open>
  A user id travels as a string in some events and as \<^verbatim>\<open>uint64_t\<close> in others; the
  conversion \<^verbatim>\<open>utils::string_t_to_uint64\<close> is outside this file, and the model keeps
  every id as the 64-bit number it converts to.
\<close>

datatype xbox_live_error_code =
    no_error
  | http_status_424_failed_dependency
  | runtime_error
  | other_error nat

record xbox_live_result =
  err :: xbox_live_error_code
  err_message :: string

definition xbox_live_result_ok :: xbox_live_result where
  "xbox_live_result_ok = \<lparr>err = no_error, err_message = []\<rparr>"

datatype title_presence_state = title_unknown | started | ended

record social_manager_presence_title_record =
  title_id :: "32 word"
  title_device_type :: nat

record social_manager_presence_record =
  record_xbox_user_id :: xuid
  presence_title_records :: "social_manager_presence_title_record list"

record xbox_social_user =
  xbox_user_id :: xuid
  gamertag :: string
  is_followed_by_caller :: bool
  is_following_user :: bool
  is_favorite :: bool
  presence_record :: social_manager_presence_record

record change_list_enum =
  presence_change :: bool
  profile_change :: bool
  social_relationship_change :: bool

text \<open>
  Member functions of \<^verbatim>\<open>social_manager_presence_record\<close> and
  \<^verbatim>\<open>xbox_social_user\<close> that this file calls and other files define. They are
  parameters of the model: \<^verbatim>\<open>_Update_device\<close>, \<^verbatim>\<open>_Remove_title\<close>, the two
  \<^verbatim>\<open>_Compare\<close> functions.
\<close>

record collaborators =
  Update_device :: "nat \<Rightarrow> bool \<Rightarrow> social_manager_presence_record \<Rightarrow> social_manager_presence_record"
  Remove_title :: "32 word \<Rightarrow> social_manager_presence_record \<Rightarrow> social_manager_presence_record"
  Compare_presence :: "social_manager_presence_record \<Rightarrow> social_manager_presence_record \<Rightarrow> bool"
  Compare_user :: "xbox_social_user \<Rightarrow> xbox_social_user \<Rightarrow> change_list_enum"

record device_presence_change_event_args =
  dp_xbox_user_id :: xuid
  dp_device_type :: nat
  is_user_logged_on_device :: bool

record title_presence_change_event_args =
  tp_xbox_user_id :: xuid
  tp_title_id :: "32 word"
  title_state :: title_presence_state

type_synonym task_completion_event = nat

record call_buffer_timer_completion_context =
  isNull :: bool
  context_id :: "32 word"
  numObjects :: nat
  context_tce :: task_completion_event

datatype internal_social_event_type =
    ise_users_added
  | ise_users_changed
  | ise_users_removed
  | ise_device_presence_changed
  | ise_title_presence_changed
  | ise_presence_changed
  | ise_social_relationships_changed
  | ise_profiles_changed
  | ise_unknown

text \<open>
  The class \<^verbatim>\<open>internal_social_event\<close> as a record with one field for each accessor
  this file calls.
\<close>

record internal_social_event =
  event_type :: internal_social_event_type
  users_affected :: "xbox_social_user list"
  users_affected_as_string_vec :: "xuid list"
  users_to_remove :: "xuid list"
  presence_records :: "social_manager_presence_record list"
  device_presence_args :: device_presence_change_event_args
  title_presence_args :: title_presence_change_event_args
  error :: xbox_live_result
  completion_context :: call_buffer_timer_completion_context
  tce :: task_completion_event

definition null_completion_context :: call_buffer_timer_completion_context where
  "null_completion_context = \<lparr>isNull = True, context_id = 0, numObjects = 0, context_tce = 0\<rparr>"

definition empty_event :: "internal_social_event_type \<Rightarrow> internal_social_event" where
  "empty_event t =
     \<lparr>event_type = t, users_affected = [], users_affected_as_string_vec = [],
      users_to_remove = [], presence_records = [],
      device_presence_args = \<lparr>dp_xbox_user_id = 0, dp_device_type = 0, is_user_logged_on_device = False\<rparr>,
      title_presence_args = \<lparr>tp_xbox_user_id = 0, tp_title_id = 0, title_state = title_unknown\<rparr>,
      error = xbox_live_result_ok, completion_context = null_completion_context, tce = 0\<rparr>"

text \<open>
  Modelled from the spec: the constructors of \<^verbatim>\<open>internal_social_event\<close>, declared in
  \<^verbatim>\<open>social_manager_internal.h\<close>, which is not part of this file. An event built from
  users, ids or presence records (spec 3, InternalEvent) carries them and lists the ids
  they affect.
\<close>

definition event_of_users :: "internal_social_event_type \<Rightarrow> xbox_social_user list \<Rightarrow> internal_social_event" where
  "event_of_users t us =
     (empty_event t)\<lparr>users_affected := us, users_affected_as_string_vec := map xbox_user_id us\<rparr>"

definition event_of_ids :: "internal_social_event_type \<Rightarrow> xuid list \<Rightarrow> internal_social_event" where
  "event_of_ids t ids =
     (empty_event t)\<lparr>users_to_remove := ids, users_affected_as_string_vec := ids\<rparr>"

definition event_of_presence :: "internal_social_event_type \<Rightarrow> social_manager_presence_record list \<Rightarrow> internal_social_event" where
  "event_of_presence t rs =
     (empty_event t)\<lparr>presence_records := rs, users_affected_as_string_vec := map record_xbox_user_id rs\<rparr>"

datatype social_event_type =
    users_added_to_social_graph
  | users_removed_from_social_graph
  | presence_changed
  | profiles_changed
  | social_relationships_changed
  | local_user_added
  | local_user_removed
  | social_user_group_loaded
  | social_user_group_updated
  | unknown

record social_event =
  se_event_type :: social_event_type
  se_users_affected :: "xuid list"
  se_err :: xbox_live_error_code
  se_err_message :: string

subsection \<open>The user buffers\<close>

text \<open>
  A pointer into a buffer is the number of the allocation it points into and the index of
  the slot there; \<^verbatim>\<open>nullptr\<close> is \<open>None\<close>. A slot that was never constructed
  is \<open>None\<close>.
\<close>

type_synonym user_ptr = "nat \<times> nat"

record xbox_social_user_context =
  socialUser :: "user_ptr option"
  refCount :: "32 word"

record user_buffer =
  buffer :: "(nat \<times> xbox_social_user option list) option"
  freeData :: "user_ptr option list"
  socialUserGraph :: "(xuid \<times> xbox_social_user_context) list"
  socialUserEventQueue :: "internal_social_event list"

datatype buffer_name = Buffer_A | Buffer_B

record user_buffers_holder =
  m_userBufferA :: user_buffer
  m_userBufferB :: user_buffer
  m_activeBuffer :: "buffer_name option"
  m_inactiveBuffer :: "buffer_name option"

definition get_buffer :: "buffer_name \<Rightarrow> user_buffers_holder \<Rightarrow> user_buffer" where
  "get_buffer b h = (case b of Buffer_A \<Rightarrow> m_userBufferA h | Buffer_B \<Rightarrow> m_userBufferB h)"

definition set_buffer :: "buffer_name \<Rightarrow> user_buffer \<Rightarrow> user_buffers_holder \<Rightarrow> user_buffers_holder" where
  "set_buffer b ub h =
     (case b of Buffer_A \<Rightarrow> h\<lparr>m_userBufferA := ub\<rparr> | Buffer_B \<Rightarrow> h\<lparr>m_userBufferB := ub\<rparr>)"

definition empty_user_buffer :: user_buffer where
  "empty_user_buffer =
     \<lparr>buffer = None, freeData = [], socialUserGraph = [], socialUserEventQueue = []\<rparr>"

text \<open>\<^verbatim>\<open>user_buffers_holder::user_buffers_holder\<close>\<close>

definition new_user_buffers_holder :: user_buffers_holder where
  "new_user_buffers_holder =
     \<lparr>m_userBufferA = empty_user_buffer, m_userBufferB = empty_user_buffer,
      m_activeBuffer = None, m_inactiveBuffer = None\<rparr>"

definition EXTRA_USER_FREE_SPACE :: nat where
  "EXTRA_USER_FREE_SPACE = 5"

text \<open>Reading and writing the user a pointer refers to in the buffer's current allocation.\<close>

definition read_user :: "user_buffer \<Rightarrow> user_ptr \<Rightarrow> error + xbox_social_user" where
  "read_user ub p =
     (case buffer ub of
        None \<Rightarrow> Inl Dangling_pointer
      | Some (a, slots) \<Rightarrow>
          if fst p \<noteq> a \<or> length slots \<le> snd p then Inl Dangling_pointer
          else (case slots ! snd p of None \<Rightarrow> Inl Uninitialised_read | Some u \<Rightarrow> Inr u))"

definition write_user :: "user_buffer \<Rightarrow> user_ptr \<Rightarrow> xbox_social_user \<Rightarrow> error + user_buffer" where
  "write_user ub p u =
     (case buffer ub of
        None \<Rightarrow> Inl Dangling_pointer
      | Some (a, slots) \<Rightarrow>
          if fst p \<noteq> a \<or> length slots \<le> snd p then Inl Dangling_pointer
          else Inr (ub\<lparr>buffer := Some (a, slots[snd p := Some u])\<rparr>))"

text \<open>
  \<^verbatim>\<open>user_buffers_holder::buffer_alloc\<close>: the number of slots of the new allocation,
  \<open>None\<close> for \<^verbatim>\<open>nullptr\<close>.
\<close>

definition buffer_alloc :: "nat \<Rightarrow> nat \<Rightarrow> nat option" where
  "buffer_alloc numUsers freeSpaceRequired =
     (if numUsers = 0 \<and> freeSpaceRequired = 0 then None
      else Some (numUsers + (EXTRA_USER_FREE_SPACE + freeSpaceRequired)))"

definition next_allocation :: "user_buffer \<Rightarrow> nat" where
  "next_allocation ub = (case buffer ub of None \<Rightarrow> 0 | Some (a, slots) \<Rightarrow> Suc a)"

text \<open>\<^verbatim>\<open>user_buffers_holder::buffer_init\<close>\<close>

definition buffer_init :: "xbox_social_user list \<Rightarrow> nat \<Rightarrow> user_buffer \<Rightarrow> user_buffer" where
  "buffer_init users freeSpaceRequired userBuffer =
     (let ub = userBuffer\<lparr>freeData := []\<rparr> in
      case buffer_alloc (length users) freeSpaceRequired of
        None \<Rightarrow> ub
      | Some n \<Rightarrow>
          let a = next_allocation userBuffer;
              totalFreeSpace = EXTRA_USER_FREE_SPACE + freeSpaceRequired
          in ub\<lparr>buffer := Some (a, map Some users @ replicate (n - length users) None),
                freeData := map (\<lambda>i. Some (a, length users + i)) [0..<totalFreeSpace]\<rparr>)"

text \<open>\<^verbatim>\<open>user_buffers_holder::initialize_users_in_map\<close>, the loop over the slot indices.\<close>

fun initialize_users_at :: "nat list \<Rightarrow> user_buffer \<Rightarrow> error + user_buffer" where
  "initialize_users_at [] userBuffer = Inr userBuffer"
| "initialize_users_at (i # rest) userBuffer =
     (case buffer userBuffer of
        None \<Rightarrow> Inl Null_dereference
      | Some (a, slots) \<Rightarrow>
          bind_res (read_user userBuffer (a, i)) (\<lambda>socialUser.
            let k = xbox_user_id socialUser;
                g = socialUserGraph userBuffer
            in initialize_users_at rest
                 (userBuffer\<lparr>socialUserGraph :=
                    (case map_of g k of
                       None \<Rightarrow> AList.update k \<lparr>socialUser = Some (a, i), refCount = 1\<rparr> g
                     | Some c \<Rightarrow> AList.update k (c\<lparr>socialUser := Some (a, i)\<rparr>) g)\<rparr>)))"

definition initialize_users_in_map :: "nat \<Rightarrow> nat \<Rightarrow> user_buffer \<Rightarrow> error + user_buffer" where
  "initialize_users_in_map numUsers bufferOffset userBuffer =
     initialize_users_at (map (\<lambda>i. bufferOffset + i) [0..<numUsers]) userBuffer"

text \<open>\<^verbatim>\<open>user_buffers_holder::initialize_buffer\<close>\<close>

definition initialize_buffer :: "xbox_social_user list \<Rightarrow> nat \<Rightarrow> user_buffer \<Rightarrow> error + user_buffer" where
  "initialize_buffer users freeSpaceRequired userBuffer =
     initialize_users_in_map (length users) 0 (buffer_init users freeSpaceRequired userBuffer)"

text \<open>\<^verbatim>\<open>user_buffers_holder::initialize\<close>\<close>

definition initialize_holder :: "xbox_social_user list \<Rightarrow> user_buffers_holder \<Rightarrow> error + user_buffers_holder" where
  "initialize_holder users h =
     bind_res (initialize_buffer users 0 (m_userBufferA h)) (\<lambda>a.
     bind_res (initialize_buffer users 0 (m_userBufferB h)) (\<lambda>b.
       Inr (h\<lparr>m_userBufferA := a, m_userBufferB := b,
              m_activeBuffer := Some Buffer_A, m_inactiveBuffer := Some Buffer_B\<rparr>)))"

text \<open>
  \<^verbatim>\<open>user_buffers_holder::add_users_to_buffer\<close>. The \<^verbatim>\<open>memcpy\<close> copies the first
  \<open>sz\<close> slots (\<^verbatim>\<open>size\<close> in the source) of the old allocation, whatever they hold.
\<close>

fun copy_slots :: "xbox_social_user option list \<Rightarrow> error + xbox_social_user list" where
  "copy_slots [] = Inr []"
| "copy_slots (None # rest) = Inl Uninitialised_read"
| "copy_slots (Some u # rest) = bind_res (copy_slots rest) (\<lambda>us. Inr (u # us))"

definition memcpy_users :: "user_buffer \<Rightarrow> nat \<Rightarrow> error + xbox_social_user list" where
  "memcpy_users ub sz =
     (if sz = 0 then Inr []
      else case buffer ub of
             None \<Rightarrow> Inl Null_dereference
           | Some (a, slots) \<Rightarrow>
               if length slots < sz then Inl Dangling_pointer else copy_slots (take sz slots))"

fun place_users :: "xbox_social_user list \<Rightarrow> user_buffer \<Rightarrow> error + user_buffer" where
  "place_users [] ub = Inr ub"
| "place_users (user # rest) ub =
     (case freeData ub of
        [] \<Rightarrow> Inl Empty_queue
      | None # free \<Rightarrow> Inl Null_dereference
      | Some p # free \<Rightarrow>
          bind_res (write_user (ub\<lparr>freeData := free\<rparr>) p user) (\<lambda>ub1.
            case buffer ub1 of
              None \<Rightarrow> Inl Null_dereference
            | Some (a, slots) \<Rightarrow>
                if fst p \<noteq> a then Inl Dangling_pointer
                else bind_res (initialize_users_in_map 1 (snd p) ub1) (place_users rest)))"

definition add_users_to_buffer :: "xbox_social_user list \<Rightarrow> nat \<Rightarrow> user_buffer \<Rightarrow> error + user_buffer" where
  "add_users_to_buffer users finalSize userBufferInactive =
     (let totalSizeNeeded = max finalSize (length users) in
      bind_res
        (if length (freeData userBufferInactive) < totalSizeNeeded then
           (let sz = length (filter (\<lambda>(k, c). socialUser c \<noteq> None) (socialUserGraph userBufferInactive)) in
            bind_res (memcpy_users userBufferInactive sz) (\<lambda>socialVec.
              initialize_buffer socialVec totalSizeNeeded userBufferInactive))
         else Inr userBufferInactive)
        (place_users users))"

text \<open>\<^verbatim>\<open>user_buffers_holder::remove_users_from_buffer\<close>\<close>

fun remove_users_from_buffer :: "xuid list \<Rightarrow> user_buffer \<Rightarrow> user_buffer" where
  "remove_users_from_buffer [] ub = ub"
| "remove_users_from_buffer (user # rest) ub =
     (case map_of (socialUserGraph ub) user of
        Some c \<Rightarrow>
          remove_users_from_buffer rest
            (ub\<lparr>freeData := freeData ub @ [socialUser c],
                socialUserGraph := AList.delete user (socialUserGraph ub)\<rparr>)
      | None \<Rightarrow> remove_users_from_buffer rest ub)"

text \<open>\<^verbatim>\<open>user_buffers_holder::swap\<close>\<close>

definition swap_buffers :: "user_buffers_holder \<Rightarrow> user_buffers_holder" where
  "swap_buffers h =
     (if m_activeBuffer h = Some Buffer_A
      then h\<lparr>m_activeBuffer := Some Buffer_B, m_inactiveBuffer := Some Buffer_A\<rparr>
      else h\<lparr>m_activeBuffer := Some Buffer_A, m_inactiveBuffer := Some Buffer_B\<rparr>)"

text \<open>\<^verbatim>\<open>user_buffers_holder::add_event\<close>\<close>

definition add_event :: "internal_social_event \<Rightarrow> user_buffers_holder \<Rightarrow> error + user_buffers_holder" where
  "add_event internalSocialEvent h =
     (case m_activeBuffer h of
        None \<Rightarrow> Inl Null_dereference
      | Some b \<Rightarrow>
          Inr (set_buffer b
                 ((get_buffer b h)\<lparr>socialUserEventQueue :=
                     socialUserEventQueue (get_buffer b h) @ [internalSocialEvent]\<rparr>) h))"

subsection \<open>The state of a social graph\<close>

datatype social_graph_state = normal | event_processing | refresh | diff

record user_subscriptions =
  devicePresenceChangeSubscription :: "xuid option"
  titlePresenceChangeSubscription :: "(xuid \<times> 32 word) option"

text \<open>
  What the graph does to the outside: completing a task completion event, firing a timer,
  calls of the presence service. The model records them in order, together with every
  call of \<^verbatim>\<open>apply_event\<close>.
\<close>

datatype call =
    Apply_event internal_social_event bool
  | Tce_set task_completion_event xbox_live_result
  | Social_graph_refresh_timer_fire "xuid list" call_buffer_timer_completion_context
  | Presence_refresh_timer_fire "xuid list"
  | Subscribe_to_device_presence_change xuid
  | Subscribe_to_title_presence_change xuid "32 word"
  | Unsubscribe_from_device_presence_change "xuid option"
  | Unsubscribe_from_title_presence_change "(xuid \<times> 32 word) option"

record social_graph =
  m_userBuffer :: user_buffers_holder
  m_internalEventQueue :: "internal_social_event list"
  m_socialEventQueue :: "social_event list"
  m_socialGraphState :: social_graph_state
  m_isInitialized :: bool
  m_numEventsThisFrame :: "32 word"
  m_userAddedContext :: "32 word"
  m_socialUserSubscriptions :: "(xuid \<times> user_subscriptions) list"
  config_title_id :: "32 word"
  calls :: "call list"

definition NUM_EVENTS_PER_FRAME :: "32 word" where
  "NUM_EVENTS_PER_FRAME = 5"

text \<open>\<^verbatim>\<open>social_graph::social_graph\<close>\<close>

definition new_social_graph :: "32 word \<Rightarrow> social_graph" where
  "new_social_graph title =
     \<lparr>m_userBuffer = new_user_buffers_holder, m_internalEventQueue = [],
      m_socialEventQueue = [], m_socialGraphState = normal, m_isInitialized = False,
      m_numEventsThisFrame = 0, m_userAddedContext = 0, m_socialUserSubscriptions = [],
      config_title_id = title, calls = []\<rparr>"

definition with_buffer :: "buffer_name \<Rightarrow> user_buffer \<Rightarrow> social_graph \<Rightarrow> social_graph" where
  "with_buffer b ub g = g\<lparr>m_userBuffer := set_buffer b ub (m_userBuffer g)\<rparr>"

text \<open>
  A \<^verbatim>\<open>std::weak_ptr<social_graph>\<close> is empty when default-constructed and refers to
  the graph when made from \<^verbatim>\<open>shared_from_this()\<close>; \<^verbatim>\<open>lock()\<close> of an empty one is null.
  The body of a task made by \<^verbatim>\<open>pplx::create_task\<close> is run where the task is created.
\<close>

datatype weak_ptr = Weak_empty | Weak_shared_from_this

definition weak_lock :: "weak_ptr \<Rightarrow> social_graph \<Rightarrow> social_graph option" where
  "weak_lock w g = (case w of Weak_empty \<Rightarrow> None | Weak_shared_from_this \<Rightarrow> Some g)"

text \<open>\<^verbatim>\<open>event_queue::push\<close>\<close>

definition event_queue_push ::
  "internal_social_event \<Rightarrow> social_event_type \<Rightarrow> xbox_live_result \<Rightarrow> social_event list \<Rightarrow> social_event list" where
  "event_queue_push socialEvent socialEventType error_result q =
     (if socialEventType = unknown then q
      else q @ [\<lparr>se_event_type = socialEventType,
                 se_users_affected = users_affected_as_string_vec socialEvent,
                 se_err = err error_result, se_err_message = err_message error_result\<rparr>])"

definition push_social_event ::
  "internal_social_event \<Rightarrow> social_event_type \<Rightarrow> xbox_live_result \<Rightarrow> social_graph \<Rightarrow> social_graph" where
  "push_social_event socialEvent socialEventType error_result g =
     g\<lparr>m_socialEventQueue := event_queue_push socialEvent socialEventType error_result (m_socialEventQueue g)\<rparr>"

subsection \<open>Subscriptions\<close>

text \<open>\<^verbatim>\<open>social_graph::setup_device_and_presence_subscriptions_helper\<close>\<close>

fun setup_device_and_presence_subscriptions_helper :: "xuid list \<Rightarrow> social_graph \<Rightarrow> social_graph" where
  "setup_device_and_presence_subscriptions_helper [] g = g"
| "setup_device_and_presence_subscriptions_helper (x # rest) g =
     setup_device_and_presence_subscriptions_helper rest
       (g\<lparr>calls := calls g @ [Subscribe_to_device_presence_change x,
                                Subscribe_to_title_presence_change x (config_title_id g)],
          m_socialUserSubscriptions :=
            AList.update x
              \<lparr>devicePresenceChangeSubscription = Some x,
               titlePresenceChangeSubscription = Some (x, config_title_id g)\<rparr>
              (m_socialUserSubscriptions g)\<rparr>)"

text \<open>\<^verbatim>\<open>social_graph::setup_device_and_presence_subscriptions\<close>\<close>

definition setup_device_and_presence_subscriptions :: "xuid list \<Rightarrow> social_graph \<Rightarrow> social_graph" where
  "setup_device_and_presence_subscriptions users g =
     (let thisWeak = Weak_shared_from_this in
      case weak_lock thisWeak g of
        None \<Rightarrow> g
      | Some pThis \<Rightarrow> setup_device_and_presence_subscriptions_helper users pThis)"

text \<open>\<^verbatim>\<open>social_graph::unsubscribe_users\<close>: the loop of the task, then the function.\<close>

fun unsubscribe_each :: "xuid list \<Rightarrow> social_graph \<Rightarrow> social_graph" where
  "unsubscribe_each [] pThis = pThis"
| "unsubscribe_each (user # rest) pThis =
     (let subscriptions =
            (case map_of (m_socialUserSubscriptions pThis) user of
               None \<Rightarrow> \<lparr>devicePresenceChangeSubscription = None, titlePresenceChangeSubscription = None\<rparr>
             | Some s \<Rightarrow> s)
      in unsubscribe_each rest
           (pThis\<lparr>calls := calls pThis @
                     [Unsubscribe_from_device_presence_change (devicePresenceChangeSubscription subscriptions),
                      Unsubscribe_from_title_presence_change (titlePresenceChangeSubscription subscriptions)],
                  m_socialUserSubscriptions := AList.delete user (m_socialUserSubscriptions pThis)\<rparr>))"

definition unsubscribe_users :: "xuid list \<Rightarrow> social_graph \<Rightarrow> social_graph" where
  "unsubscribe_users users g =
     (let thisWeakPtr = Weak_empty in
      case weak_lock thisWeakPtr g of
        None \<Rightarrow> g
      | Some pThis \<Rightarrow> unsubscribe_each users pThis)"

subsection \<open>Applying internal events\<close>

text \<open>
  \<^verbatim>\<open>socialUserGraph[user]\<close>: \<^verbatim>\<open>operator[]\<close> of the map gives an absent key a
  value-initialised context. The struct \<^verbatim>\<open>xbox_social_user_context\<close> is declared
  outside this file, with the pointer and the count that this file assigns (spec 3,
  UserContext); value-initialised, they are a null user and a count of 0.
\<close>

definition default_user_context :: xbox_social_user_context where
  "default_user_context = \<lparr>socialUser = None, refCount = 0\<rparr>"

definition graph_context :: "xuid \<Rightarrow> (xuid \<times> xbox_social_user_context) list \<Rightarrow> xbox_social_user_context" where
  "graph_context k gr = (case map_of gr k of None \<Rightarrow> default_user_context | Some c \<Rightarrow> c)"

text \<open>\<^verbatim>\<open>social_graph::apply_users_added_event\<close>: its two loops, then the function.\<close>

fun users_added_loop ::
  "xuid list \<Rightarrow> (xuid \<times> xbox_social_user_context) list \<Rightarrow> xuid list
     \<Rightarrow> (xuid \<times> xbox_social_user_context) list \<times> xuid list" where
  "users_added_loop [] gr usersToAdd = (gr, usersToAdd)"
| "users_added_loop (user # rest) gr usersToAdd =
     (case map_of gr user of
        Some c \<Rightarrow> users_added_loop rest (AList.update user (c\<lparr>refCount := refCount c + 1\<rparr>) gr) usersToAdd
      | None \<Rightarrow> users_added_loop rest gr (usersToAdd @ [user]))"

fun insert_new_users ::
  "xuid list \<Rightarrow> (xuid \<times> xbox_social_user_context) list \<Rightarrow> (xuid \<times> xbox_social_user_context) list" where
  "insert_new_users [] gr = gr"
| "insert_new_users (user # rest) gr =
     insert_new_users rest
       (AList.update user ((graph_context user gr)\<lparr>socialUser := None, refCount := 1\<rparr>) gr)"

definition apply_users_added_event ::
  "internal_social_event \<Rightarrow> buffer_name \<Rightarrow> bool \<Rightarrow> social_graph \<Rightarrow> social_graph" where
  "apply_users_added_event evt inactiveBuffer isFreshEvent g =
     (let ub = get_buffer inactiveBuffer (m_userBuffer g) in
      case users_added_loop (users_affected_as_string_vec evt) (socialUserGraph ub) [] of
        (gr, usersToAdd) \<Rightarrow>
          if usersToAdd = [] then
            (with_buffer inactiveBuffer (ub\<lparr>socialUserGraph := gr\<rparr>) g)
              \<lparr>calls := calls g @ [Tce_set (tce evt) xbox_live_result_ok]\<rparr>
          else
            (let usersAddedStruct =
                   \<lparr>isNull = False, context_id = m_userAddedContext g + 1,
                    numObjects = length usersToAdd, context_tce = tce evt\<rparr>
             in (with_buffer inactiveBuffer (ub\<lparr>socialUserGraph := insert_new_users usersToAdd gr\<rparr>) g)
                  \<lparr>m_userAddedContext := m_userAddedContext g + 1,
                   calls := calls g @
                     (if isFreshEvent then [Social_graph_refresh_timer_fire usersToAdd usersAddedStruct]
                      else [])\<rparr>))"

text \<open>\<^verbatim>\<open>social_graph::apply_users_removed_event\<close>: its loop, then the function.\<close>

fun users_removed_loop ::
  "xuid list \<Rightarrow> (xuid \<times> xbox_social_user_context) list \<Rightarrow> xuid list \<Rightarrow> social_event_type
     \<Rightarrow> (xuid \<times> xbox_social_user_context) list \<times> xuid list \<times> social_event_type" where
  "users_removed_loop [] gr removeUsers eventType = (gr, removeUsers, eventType)"
| "users_removed_loop (user # rest) gr removeUsers eventType =
     (let c = (graph_context user gr)\<lparr>refCount := refCount (graph_context user gr) - 1\<rparr>;
          gr1 = AList.update user c gr
      in if refCount c = 0 then
           (if socialUser c \<noteq> None
            then users_removed_loop rest gr1 (removeUsers @ [user]) users_removed_from_social_graph
            else users_removed_loop rest (AList.delete user gr1) removeUsers users_removed_from_social_graph)
         else users_removed_loop rest gr1 removeUsers eventType)"

definition apply_users_removed_event ::
  "internal_social_event \<Rightarrow> buffer_name \<Rightarrow> social_event_type \<Rightarrow> bool \<Rightarrow> social_graph
     \<Rightarrow> social_graph \<times> social_event_type" where
  "apply_users_removed_event evt inactiveBuffer eventType isFreshEvent g =
     (let ub = get_buffer inactiveBuffer (m_userBuffer g) in
      case users_removed_loop (users_to_remove evt) (socialUserGraph ub) [] eventType of
        (gr, removeUsers, eventType1) \<Rightarrow>
          (let g1 = with_buffer inactiveBuffer
                      (remove_users_from_buffer removeUsers (ub\<lparr>socialUserGraph := gr\<rparr>)) g
           in (if isFreshEvent then unsubscribe_users removeUsers g1 else g1, eventType1)))"

text \<open>\<^verbatim>\<open>social_graph::apply_users_change_event\<close>: its first loop, then the function.\<close>

fun users_change_loop ::
  "xbox_social_user list \<Rightarrow> user_buffer \<Rightarrow> xbox_social_user list \<Rightarrow> xbox_social_user list
     \<Rightarrow> error + (user_buffer \<times> xbox_social_user list \<times> xbox_social_user list)" where
  "users_change_loop [] ub usersToAdd usersChanged = Inr (ub, usersToAdd, usersChanged)"
| "users_change_loop (user # rest) ub usersToAdd usersChanged =
     (case map_of (socialUserGraph ub) (xbox_user_id user) of
        None \<Rightarrow> users_change_loop rest ub usersToAdd usersChanged
      | Some c \<Rightarrow>
          (case socialUser c of
             None \<Rightarrow> users_change_loop rest ub (usersToAdd @ [user]) usersChanged
           | Some p \<Rightarrow>
               bind_res (write_user ub p user) (\<lambda>ub1.
                 users_change_loop rest ub1 usersToAdd (usersChanged @ [user]))))"

definition apply_users_change_event ::
  "internal_social_event \<Rightarrow> buffer_name \<Rightarrow> bool \<Rightarrow> social_graph \<Rightarrow> error + social_graph" where
  "apply_users_change_event evt inactiveBuffer isFreshEvent g =
     (let g1 = (if \<not> isNull (completion_context evt)
                then g\<lparr>calls := calls g @ [Tce_set (context_tce (completion_context evt)) (error evt)]\<rparr>
                else g);
          result = error evt
      in if err result \<noteq> no_error then
           Inr (push_social_event evt users_added_to_social_graph (error evt) g1)
         else
           bind_res (users_change_loop (users_affected evt) (get_buffer inactiveBuffer (m_userBuffer g1)) [] [])
             (\<lambda>(ub, usersToAdd, usersChanged).
                bind_res
                  (if usersToAdd \<noteq> [] then
                     bind_res (add_users_to_buffer usersToAdd (numObjects (completion_context evt)) ub)
                       (\<lambda>ub1.
                          let g2 = with_buffer inactiveBuffer ub1 g1;
                              usersList = map xbox_user_id usersToAdd
                          in Inr (if isFreshEvent
                                  then push_social_event (event_of_users ise_users_added usersToAdd)
                                         users_added_to_social_graph xbox_live_result_ok
                                         (setup_device_and_presence_subscriptions usersList g2)
                                  else g2))
                   else Inr (with_buffer inactiveBuffer ub g1))
                  (\<lambda>g3.
                     Inr (if usersChanged \<noteq> [] \<and> isFreshEvent
                          then push_social_event (event_of_users ise_profiles_changed usersChanged)
                                 profiles_changed xbox_live_result_ok g3
                          else g3))))"

text \<open>\<^verbatim>\<open>social_graph::apply_device_presence_changed_event\<close>\<close>

definition apply_device_presence_changed_event ::
  "collaborators \<Rightarrow> internal_social_event \<Rightarrow> buffer_name \<Rightarrow> bool \<Rightarrow> social_event_type
     \<Rightarrow> social_graph \<Rightarrow> error + (social_graph \<times> social_event_type)" where
  "apply_device_presence_changed_event X evt inactiveBuffer isFreshEvent eventType g =
     (let devicePresenceChangedArgs = device_presence_args evt;
          xuid = dp_xbox_user_id devicePresenceChangedArgs
      in case m_inactiveBuffer (m_userBuffer g) of
           None \<Rightarrow> Inl Null_dereference
         | Some mb \<Rightarrow>
             (case map_of (socialUserGraph (get_buffer mb (m_userBuffer g))) xuid of
                None \<Rightarrow> Inr (g, eventType)
              | Some c \<Rightarrow>
                  (case socialUser c of
                     None \<Rightarrow> Inr (g, eventType)
                   | Some p \<Rightarrow>
                       bind_res (read_user (get_buffer mb (m_userBuffer g)) p) (\<lambda>u.
                         let deviceRecordSize = length (presence_title_records (presence_record u));
                             fireCallbackTimer =
                               (1 < deviceRecordSize \<or> is_user_logged_on_device devicePresenceChangedArgs)
                         in if fireCallbackTimer \<and> isFreshEvent then
                              Inr (g\<lparr>calls := calls g @ [Presence_refresh_timer_fire [xuid]]\<rparr>, eventType)
                            else if \<not> fireCallbackTimer then
                              (let ub = get_buffer inactiveBuffer (m_userBuffer g) in
                               case map_of (socialUserGraph ub) xuid of
                                 None \<Rightarrow> Inr (g, eventType)
                               | Some c2 \<Rightarrow>
                                   (case socialUser c2 of
                                      None \<Rightarrow> Inr (g, eventType)
                                    | Some p2 \<Rightarrow>
                                        bind_res (read_user ub p2) (\<lambda>u2.
                                        bind_res
                                          (write_user ub p2
                                             (u2\<lparr>presence_record :=
                                                   Update_device X (dp_device_type devicePresenceChangedArgs)
                                                     (is_user_logged_on_device devicePresenceChangedArgs)
                                                     (presence_record u2)\<rparr>))
                                          (\<lambda>ub1. Inr (with_buffer inactiveBuffer ub1 g, presence_changed)))))
                            else Inr (g, eventType)))))"

text \<open>\<^verbatim>\<open>social_graph::apply_presence_changed_event\<close>: its loop, then the function.\<close>

fun presence_changed_loop ::
  "collaborators \<Rightarrow> social_manager_presence_record list \<Rightarrow> user_buffer \<Rightarrow> xuid list
     \<Rightarrow> error + (user_buffer \<times> xuid list)" where
  "presence_changed_loop X [] ub userAddedVec = Inr (ub, userAddedVec)"
| "presence_changed_loop X (presenceRecord # rest) ub userAddedVec =
     (let index = record_xbox_user_id presenceRecord in
      if index = 0 then presence_changed_loop X rest ub userAddedVec
      else case map_of (socialUserGraph ub) index of
             None \<Rightarrow> presence_changed_loop X rest ub userAddedVec
           | Some c \<Rightarrow>
               (case socialUser c of
                  None \<Rightarrow> presence_changed_loop X rest ub userAddedVec
                | Some p \<Rightarrow>
                    bind_res (read_user ub p) (\<lambda>u.
                      if Compare_presence X (presence_record u) presenceRecord then
                        bind_res (write_user ub p (u\<lparr>presence_record := presenceRecord\<rparr>)) (\<lambda>ub1.
                          presence_changed_loop X rest ub1 (userAddedVec @ [index]))
                      else presence_changed_loop X rest ub userAddedVec)))"

definition apply_presence_changed_event ::
  "collaborators \<Rightarrow> internal_social_event \<Rightarrow> buffer_name \<Rightarrow> bool \<Rightarrow> social_graph \<Rightarrow> error + social_graph" where
  "apply_presence_changed_event X evt inactiveBuffer isFreshEvent g =
     bind_res (presence_changed_loop X (presence_records evt) (get_buffer inactiveBuffer (m_userBuffer g)) [])
       (\<lambda>(ub, userAddedVec).
          let g1 = with_buffer inactiveBuffer ub g in
          Inr (if isFreshEvent \<and> userAddedVec \<noteq> []
               then push_social_event (event_of_ids ise_presence_changed userAddedVec)
                      presence_changed xbox_live_result_ok g1
               else g1))"

text \<open>The cases of \<^verbatim>\<open>social_graph::apply_event\<close> that the source writes inline.\<close>

definition apply_title_presence_changed ::
  "collaborators \<Rightarrow> internal_social_event \<Rightarrow> buffer_name \<Rightarrow> social_event_type \<Rightarrow> social_graph
     \<Rightarrow> error + (social_graph \<times> social_event_type)" where
  "apply_title_presence_changed X evt inactiveBuffer eventType g =
     (let titlePresenceChanged = title_presence_args evt;
          xuid = tp_xbox_user_id titlePresenceChanged;
          ub = get_buffer inactiveBuffer (m_userBuffer g)
      in case map_of (socialUserGraph ub) xuid of
           None \<Rightarrow> Inr (g, eventType)
         | Some c \<Rightarrow>
             (case socialUser c of
                None \<Rightarrow> Inr (g, eventType)
              | Some p \<Rightarrow>
                  bind_res (read_user ub p) (\<lambda>u.
                    if title_state titlePresenceChanged = ended then
                      bind_res
                        (write_user ub p
                           (u\<lparr>presence_record :=
                                Remove_title X (tp_title_id titlePresenceChanged) (presence_record u)\<rparr>))
                        (\<lambda>ub1. Inr (with_buffer inactiveBuffer ub1 g, presence_changed))
                    else Inr (g, presence_changed))))"

fun profiles_changed_loop :: "xbox_social_user list \<Rightarrow> user_buffer \<Rightarrow> error + user_buffer" where
  "profiles_changed_loop [] ub = Inr ub"
| "profiles_changed_loop (user # rest) ub =
     (case socialUser (graph_context (xbox_user_id user) (socialUserGraph ub)) of
        None \<Rightarrow> Inl Null_dereference
      | Some p \<Rightarrow> bind_res (write_user ub p user) (profiles_changed_loop rest))"

text \<open>\<^verbatim>\<open>social_graph::apply_event\<close>\<close>

definition apply_event ::
  "collaborators \<Rightarrow> internal_social_event \<Rightarrow> bool \<Rightarrow> social_graph \<Rightarrow> error + social_graph" where
  "apply_event X evt isFreshEvent g0 =
     (let g = g0\<lparr>calls := calls g0 @ [Apply_event evt isFreshEvent]\<rparr> in
      case m_inactiveBuffer (m_userBuffer g) of
        None \<Rightarrow> Inr g
      | Some inactiveBuffer \<Rightarrow>
          bind_res
            (case event_type evt of
               ise_users_added \<Rightarrow> Inr (apply_users_added_event evt inactiveBuffer isFreshEvent g, unknown)
             | ise_users_changed \<Rightarrow>
                 bind_res (apply_users_change_event evt inactiveBuffer isFreshEvent g) (\<lambda>g1. Inr (g1, unknown))
             | ise_users_removed \<Rightarrow> Inr (apply_users_removed_event evt inactiveBuffer unknown isFreshEvent g)
             | ise_device_presence_changed \<Rightarrow>
                 apply_device_presence_changed_event X evt inactiveBuffer isFreshEvent unknown g
             | ise_title_presence_changed \<Rightarrow>
                 apply_title_presence_changed X evt inactiveBuffer unknown g
             | ise_presence_changed \<Rightarrow>
                 bind_res (apply_presence_changed_event X evt inactiveBuffer isFreshEvent g) (\<lambda>g1. Inr (g1, unknown))
             | ise_social_relationships_changed \<Rightarrow>
                 bind_res (profiles_changed_loop (users_affected evt) (get_buffer inactiveBuffer (m_userBuffer g)))
                   (\<lambda>ub. Inr (with_buffer inactiveBuffer ub g, profiles_changed))
             | ise_profiles_changed \<Rightarrow>
                 bind_res (profiles_changed_loop (users_affected evt) (get_buffer inactiveBuffer (m_userBuffer g)))
                   (\<lambda>ub. Inr (with_buffer inactiveBuffer ub g, profiles_changed))
             | ise_unknown \<Rightarrow> Inr (g, unknown))
            (\<lambda>(g1, eventType).
               Inr (if isFreshEvent then push_social_event evt eventType xbox_live_result_ok g1 else g1)))"

subsection \<open>The event worker\<close>

text \<open>
  Modelled from the spec: \<^verbatim>\<open>internal_event_queue\<close>, the type of
  \<^verbatim>\<open>m_internalEventQueue\<close> and of \<^verbatim>\<open>socialUserEventQueue\<close>, is declared outside
  this file. It is a first-in first-out queue (spec 5, ordering guarantees), here a list:
  \<^verbatim>\<open>push\<close> appends, \<^verbatim>\<open>pop\<close> takes the head, \<^verbatim>\<open>empty\<close> tests for \<open>[]\<close>.
\<close>

text \<open>
  \<^verbatim>\<open>social_graph::process_cached_events\<close>. The loop pops the head of the queue of the
  buffer that is inactive at entry until that queue is empty.
\<close>

fun apply_cached_events ::
  "collaborators \<Rightarrow> buffer_name \<Rightarrow> internal_social_event list \<Rightarrow> social_graph \<Rightarrow> error + social_graph" where
  "apply_cached_events X inactiveBuffer [] g = Inr g"
| "apply_cached_events X inactiveBuffer (evt # rest) g =
     bind_res
       (apply_event X evt False
          (with_buffer inactiveBuffer
             ((get_buffer inactiveBuffer (m_userBuffer g))\<lparr>socialUserEventQueue := rest\<rparr>) g))
       (apply_cached_events X inactiveBuffer rest)"

definition process_cached_events :: "collaborators \<Rightarrow> social_graph \<Rightarrow> error + social_graph" where
  "process_cached_events X g =
     (case m_inactiveBuffer (m_userBuffer g) of
        None \<Rightarrow> Inr g
      | Some inactiveBuffer \<Rightarrow>
          bind_res
            (apply_cached_events X inactiveBuffer
               (socialUserEventQueue (get_buffer inactiveBuffer (m_userBuffer g))) g)
            (\<lambda>g1. Inr (g1\<lparr>m_socialGraphState := normal\<rparr>)))"

text \<open>\<^verbatim>\<open>social_graph::process_events\<close>\<close>

definition process_events :: "collaborators \<Rightarrow> social_graph \<Rightarrow> error + (bool \<times> social_graph)" where
  "process_events X g =
     (let shouldApplyEvent =
            (m_internalEventQueue g \<noteq> [] \<and> m_numEventsThisFrame g < NUM_EVENTS_PER_FRAME)
      in if shouldApplyEvent then
           (case m_internalEventQueue g of
              [] \<Rightarrow> Inl Empty_queue
            | evt # rest \<Rightarrow>
                bind_res
                  (apply_event X evt True
                     (g\<lparr>m_numEventsThisFrame := m_numEventsThisFrame g + 1,
                        m_internalEventQueue := rest\<rparr>))
                  (\<lambda>g1. bind_res (add_event evt (m_userBuffer g1))
                     (\<lambda>h. Inr (shouldApplyEvent, g1\<lparr>m_userBuffer := h\<rparr>))))
         else Inr (shouldApplyEvent, g))"

text \<open>\<^verbatim>\<open>social_graph::do_event_work\<close>\<close>

definition do_event_work :: "collaborators \<Rightarrow> social_graph \<Rightarrow> error + (bool \<times> social_graph)" where
  "do_event_work X g =
     (let g1 = g\<lparr>m_socialGraphState := event_processing\<rparr>;
          hasCachedEvents =
            (m_isInitialized g1 \<and>
             (case m_inactiveBuffer (m_userBuffer g1) of
                None \<Rightarrow> False
              | Some b \<Rightarrow> socialUserEventQueue (get_buffer b (m_userBuffer g1)) \<noteq> []))
      in if hasCachedEvents then
           bind_res (process_cached_events X g1) (\<lambda>g2. Inr (True, g2))
         else if m_isInitialized g1 then
           process_events X (g1\<lparr>m_socialGraphState := normal\<rparr>)
         else Inr (False, g1\<lparr>m_socialGraphState := normal\<rparr>))"

subsection \<open>The frame pump\<close>

text \<open>
  \<^verbatim>\<open>change_struct\<close>: the pointer \<^verbatim>\<open>socialUsers\<close> to the \<^verbatim>\<open>socialUserGraph\<close> of a
  buffer is the name of that buffer.
\<close>

record change_struct =
  socialUsers :: "buffer_name option"

text \<open>\<^verbatim>\<open>social_graph::do_work\<close>\<close>

definition do_work ::
  "social_event list \<Rightarrow> social_graph \<Rightarrow> change_struct \<times> social_event list \<times> social_graph" where
  "do_work socialEvents g =
     (let g1 = g\<lparr>m_numEventsThisFrame := 0\<rparr>;
          g2 = (if m_socialGraphState g1 = normal \<and>
                   (case m_inactiveBuffer (m_userBuffer g1) of
                      None \<Rightarrow> False
                    | Some b \<Rightarrow> socialUserEventQueue (get_buffer b (m_userBuffer g1)) = [])
                then g1\<lparr>m_userBuffer := swap_buffers (m_userBuffer g1)\<rparr>
                else g1);
          changeStruct =
            (case m_activeBuffer (m_userBuffer g2) of
               None \<Rightarrow> \<lparr>socialUsers = None\<rparr>
             | Some b \<Rightarrow> \<lparr>socialUsers = Some b\<rparr>)
      in if m_socialEventQueue g2 \<noteq> [] \<and> m_socialGraphState g2 = normal
         then (changeStruct, socialEvents @ m_socialEventQueue g2, g2\<lparr>m_socialEventQueue := []\<rparr>)
         else (changeStruct, socialEvents, g2))"

subsection \<open>Producers of internal events\<close>

definition event_of_strings :: "internal_social_event_type \<Rightarrow> xuid list \<Rightarrow> internal_social_event" where
  "event_of_strings t ids = (empty_event t)\<lparr>users_affected_as_string_vec := ids\<rparr>"

definition push_internal_event :: "internal_social_event \<Rightarrow> social_graph \<Rightarrow> social_graph" where
  "push_internal_event evt g = g\<lparr>m_internalEventQueue := m_internalEventQueue g @ [evt]\<rparr>"


definition remove_users :: "xuid list \<Rightarrow> social_graph \<Rightarrow> social_graph" where
  "remove_users users g = push_internal_event (event_of_ids ise_users_removed users) g"

text \<open>
  The continuation of \<^verbatim>\<open>social_graph::social_graph_timer_callback\<close>, run with the
  result of the fetch.
\<close>

definition social_graph_timer_callback ::
  "xuid list \<Rightarrow> call_buffer_timer_completion_context \<Rightarrow> xbox_live_result \<Rightarrow> xbox_social_user list
     \<Rightarrow> social_graph \<Rightarrow> social_graph" where
  "social_graph_timer_callback users completionContext socialListResult payload g =
     (if err socialListResult = no_error then
        push_internal_event
          ((event_of_users ise_users_changed payload)\<lparr>completion_context := completionContext\<rparr>) g
      else
        push_internal_event
          ((event_of_strings ise_users_changed users)
             \<lparr>error := socialListResult, completion_context := completionContext\<rparr>) g)"

text \<open>
  \<^verbatim>\<open>social_graph::perform_diff\<close>: the loop over the fetched users, the loop over the
  users of the inactive buffer, then the function. The fetched map is an association list.
\<close>

fun diff_fetched_users ::
  "collaborators \<Rightarrow> (xuid \<times> xbox_social_user) list \<Rightarrow> user_buffer
     \<Rightarrow> xbox_social_user list \<Rightarrow> social_manager_presence_record list
     \<Rightarrow> xbox_social_user list \<Rightarrow> xbox_social_user list
     \<Rightarrow> error + (xbox_social_user list \<times> social_manager_presence_record list
                  \<times> xbox_social_user list \<times> xbox_social_user list)" where
  "diff_fetched_users X [] ub usersAddedList presenceChangeList profileChangeList socialRelationshipChangeList =
     Inr (usersAddedList, presenceChangeList, profileChangeList, socialRelationshipChangeList)"
| "diff_fetched_users X ((k, current) # rest) ub usersAddedList presenceChangeList profileChangeList socialRelationshipChangeList =
     (case map_of (socialUserGraph ub) k of
        None \<Rightarrow>
          diff_fetched_users X rest ub (usersAddedList @ [current]) presenceChangeList
            profileChangeList socialRelationshipChangeList
      | Some c \<Rightarrow>
          (case socialUser c of
             None \<Rightarrow> Inl Null_dereference
           | Some p \<Rightarrow>
               bind_res (read_user ub p) (\<lambda>previousUser.
                 let didChange = Compare_user X previousUser current in
                 diff_fetched_users X rest ub usersAddedList
                   (if presence_change didChange
                    then presenceChangeList @ [presence_record current] else presenceChangeList)
                   (if profile_change didChange
                    then profileChangeList @ [current] else profileChangeList)
                   (if social_relationship_change didChange
                    then socialRelationshipChangeList @ [current] else socialRelationshipChangeList))))"

fun diff_previous_users ::
  "(xuid \<times> xbox_social_user) list \<Rightarrow> user_buffer \<Rightarrow> (xuid \<times> xbox_social_user_context) list
     \<Rightarrow> xuid list \<Rightarrow> error + xuid list" where
  "diff_previous_users xboxSocialUsers ub [] usersRemovedList = Inr usersRemovedList"
| "diff_previous_users xboxSocialUsers ub ((k, c) # rest) usersRemovedList =
     (if map_of xboxSocialUsers k = None then
        (case socialUser c of
           None \<Rightarrow> diff_previous_users xboxSocialUsers ub rest usersRemovedList
         | Some p \<Rightarrow>
             bind_res (read_user ub p) (\<lambda>u.
               if is_following_user u
               then diff_previous_users xboxSocialUsers ub rest (usersRemovedList @ [k])
               else diff_previous_users xboxSocialUsers ub rest usersRemovedList))
      else diff_previous_users xboxSocialUsers ub rest usersRemovedList)"

definition perform_diff ::
  "collaborators \<Rightarrow> (xuid \<times> xbox_social_user) list \<Rightarrow> social_graph \<Rightarrow> error + social_graph" where
  "perform_diff X xboxSocialUsers g =
     (case m_inactiveBuffer (m_userBuffer g) of
        None \<Rightarrow> Inr g
      | Some b \<Rightarrow>
          (let g1 = g\<lparr>m_socialGraphState := diff\<rparr>;
               ub = get_buffer b (m_userBuffer g1)
           in bind_res (diff_fetched_users X xboxSocialUsers ub [] [] [] [])
                (\<lambda>(usersAddedList, presenceChangeList, profileChangeList, socialRelationshipChangeList).
                   bind_res (diff_previous_users xboxSocialUsers ub (socialUserGraph ub) [])
                     (\<lambda>usersRemovedList.
                        Inr (g1\<lparr>m_internalEventQueue :=
                                   m_internalEventQueue g1
                                   @ (if usersAddedList \<noteq> []
                                      then [event_of_users ise_users_changed usersAddedList] else [])
                                   @ (if usersRemovedList \<noteq> []
                                      then [event_of_ids ise_users_removed usersRemovedList] else [])
                                   @ (if presenceChangeList \<noteq> []
                                      then [event_of_presence ise_presence_changed presenceChangeList] else [])
                                   @ (if profileChangeList \<noteq> []
                                      then [event_of_users ise_profiles_changed profileChangeList] else [])
                                   @ (if socialRelationshipChangeList \<noteq> []
                                      then [event_of_users ise_social_relationships_changed
                                              socialRelationshipChangeList] else []),
                                 m_socialGraphState := normal\<rparr>)))))"

subsection \<open>Initialisation\<close>

text \<open>
  The continuation of \<^verbatim>\<open>social_graph::initialize\<close>, run with the result of the first
  fetch; the subscriptions of the presence service succeed.
\<close>

fun initial_subscriptions ::
  "(xuid \<times> xbox_social_user_context) list \<Rightarrow> user_buffer \<Rightarrow> social_graph \<Rightarrow> error + social_graph" where
  "initial_subscriptions [] ub g = Inr g"
| "initial_subscriptions ((k, c) # rest) ub g =
     (case socialUser c of
        None \<Rightarrow> Inl Null_dereference
      | Some p \<Rightarrow>
          bind_res (read_user ub p) (\<lambda>u.
            initial_subscriptions rest ub
              (g\<lparr>calls := calls g @ [Subscribe_to_device_presence_change (xbox_user_id u),
                                       Subscribe_to_title_presence_change (xbox_user_id u) (config_title_id g)],
                 m_socialUserSubscriptions :=
                   AList.update k
                     \<lparr>devicePresenceChangeSubscription = Some (xbox_user_id u),
                      titlePresenceChangeSubscription = Some (xbox_user_id u, config_title_id g)\<rparr>
                     (m_socialUserSubscriptions g)\<rparr>)))"

definition initialize ::
  "xbox_live_result \<Rightarrow> xbox_social_user list \<Rightarrow> social_graph \<Rightarrow> error + (xbox_live_result \<times> social_graph)" where
  "initialize socialUsersResult payload g =
     (if err socialUsersResult \<noteq> no_error \<and> err socialUsersResult \<noteq> http_status_424_failed_dependency
      then Inr (socialUsersResult, g)
      else
        bind_res (initialize_holder payload (m_userBuffer g)) (\<lambda>h.
          let g1 = g\<lparr>m_userBuffer := h\<rparr> in
          case m_inactiveBuffer h of
            None \<Rightarrow> Inl Null_dereference
          | Some b \<Rightarrow>
              bind_res (initial_subscriptions (socialUserGraph (get_buffer b h)) (get_buffer b h) g1)
                (\<lambda>g2. Inr (xbox_live_result_ok, g2\<lparr>m_isInitialized := True\<rparr>))))"

subsection \<open>Runs of the application thread, the worker and the producers\<close>

text \<open>
  A run is a sequence of steps, each one member function run to its end: the worker's
  \<^verbatim>\<open>do_event_work\<close>, the application's \<^verbatim>\<open>do_work\<close> on its vector of events, a
  producer pushing an internal event, a refresh calling \<^verbatim>\<open>perform_diff\<close>.
\<close>

datatype step =
    Do_event_work
  | Do_work
  | Push_event internal_social_event
  | Perform_diff "(xuid \<times> xbox_social_user) list"

fun run_step ::
  "collaborators \<Rightarrow> step \<Rightarrow> social_graph \<times> social_event list
     \<Rightarrow> error + (social_graph \<times> social_event list)" where
  "run_step X Do_event_work (g, socialEvents) =
     bind_res (do_event_work X g) (\<lambda>(hasRemainingEvent, g1). Inr (g1, socialEvents))"
| "run_step X Do_work (g, socialEvents) =
     (case do_work socialEvents g of (changeStruct, socialEvents1, g1) \<Rightarrow> Inr (g1, socialEvents1))"
| "run_step X (Push_event evt) (g, socialEvents) = Inr (push_internal_event evt g, socialEvents)"
| "run_step X (Perform_diff xboxSocialUsers) (g, socialEvents) =
     bind_res (perform_diff X xboxSocialUsers g) (\<lambda>g1. Inr (g1, socialEvents))"

fun run ::
  "collaborators \<Rightarrow> step list \<Rightarrow> social_graph \<times> social_event list
     \<Rightarrow> error + (social_graph \<times> social_event list)" where
  "run X [] s = Inr s"
| "run X (a # rest) s = bind_res (run_step X a s) (run X rest)"

text \<open>The calls of \<^verbatim>\<open>apply_event\<close> among the recorded calls, all of them and the fresh ones.\<close>

fun is_apply_event :: "call \<Rightarrow> bool" where
  "is_apply_event (Apply_event evt isFreshEvent) = True"
| "is_apply_event c = False"

fun is_fresh_apply_event :: "call \<Rightarrow> bool" where
  "is_fresh_apply_event (Apply_event evt isFreshEvent) = isFreshEvent"
| "is_fresh_apply_event c = False"

fun is_unsubscribe :: "call \<Rightarrow> bool" where
  "is_unsubscribe (Unsubscribe_from_device_presence_change s) = True"
| "is_unsubscribe (Unsubscribe_from_title_presence_change s) = True"
| "is_unsubscribe c = False"

subsection \<open>Concrete states\<close>

text \<open>
  One implementation of the collaborators, and the graph after its initialisation with one
  followed user, for evaluating the functions on concrete inputs.
\<close>

definition sample_collaborators :: collaborators where
  "sample_collaborators =
     \<lparr>Update_device = (\<lambda>d logged_on r.
        r\<lparr>presence_title_records :=
            (if logged_on then presence_title_records r @ [\<lparr>title_id = 0, title_device_type = d\<rparr>]
             else filter (\<lambda>t. title_device_type t \<noteq> d) (presence_title_records r))\<rparr>),
      Remove_title = (\<lambda>t r.
        r\<lparr>presence_title_records := filter (\<lambda>x. title_id x \<noteq> t) (presence_title_records r)\<rparr>),
      Compare_presence = (\<lambda>a b. a \<noteq> b),
      Compare_user = (\<lambda>a b.
        \<lparr>presence_change = (presence_record a \<noteq> presence_record b),
         profile_change = (gamertag a \<noteq> gamertag b),
         social_relationship_change = (is_following_user a \<noteq> is_following_user b)\<rparr>)\<rparr>"

definition sample_user :: "xuid \<Rightarrow> string \<Rightarrow> xbox_social_user" where
  "sample_user x name =
     \<lparr>xbox_user_id = x, gamertag = name, is_followed_by_caller = True, is_following_user = True,
      is_favorite = False,
      presence_record =
        \<lparr>record_xbox_user_id = x,
         presence_title_records = [\<lparr>title_id = 7, title_device_type = 1\<rparr>]\<rparr>\<rparr>"

definition sample_graph :: social_graph where
  "sample_graph =
     (case initialize xbox_live_result_ok [sample_user 100 ''Alice''] (new_social_graph 7) of
        Inr (r, g) \<Rightarrow> g
      | Inl e \<Rightarrow> new_social_graph 7)"

text \<open>A device presence event for the user 100 on device 1.\<close>

definition sample_device_event :: "bool \<Rightarrow> internal_social_event" where
  "sample_device_event logged_on =
     (empty_event ise_device_presence_changed)
       \<lparr>users_affected_as_string_vec := [100],
        device_presence_args :=
          \<lparr>dp_xbox_user_id = 100, dp_device_type = 1, is_user_logged_on_device = logged_on\<rparr>\<rparr>"

definition sample_run :: "step list \<Rightarrow> social_graph" where
  "sample_run steps =
     (case run sample_collaborators steps (sample_graph, []) of
        Inr (g, socialEvents) \<Rightarrow> g
      | Inl e \<Rightarrow> sample_graph)"

text \<open>
  A failed fetch for the user 200, as \<^verbatim>\<open>social_graph_timer_callback\<close> reports it: the
  event it pushes when the fetch of the users \<open>[200]\<close> fails.
\<close>

definition sample_completion_context :: call_buffer_timer_completion_context where
  "sample_completion_context = \<lparr>isNull = False, context_id = 1, numObjects = 1, context_tce = 42\<rparr>"

definition sample_failure :: xbox_live_result where
  "sample_failure = \<lparr>err = other_error 500, err_message = ''fetch failed''\<rparr>"

definition sample_failed_fetch :: internal_social_event where
  "sample_failed_fetch =
     (event_of_strings ise_users_changed [200])
       \<lparr>error := sample_failure, completion_context := sample_completion_context\<rparr>"

subsection \<open>Notions used in the statements\<close>

text \<open>
  The public event by which a failed \<open>users_changed\<close> event reports its error, and the
  completion of the promise attached to the event, if one is attached.
\<close>

definition fetch_error_event :: "internal_social_event \<Rightarrow> social_event" where
  "fetch_error_event evt =
     \<lparr>se_event_type = users_added_to_social_graph,
      se_users_affected = users_affected_as_string_vec evt,
      se_err = err (error evt), se_err_message = err_message (error evt)\<rparr>"

definition completion_calls :: "internal_social_event \<Rightarrow> call list" where
  "completion_calls evt =
     (if isNull (completion_context evt) then []
      else [Tce_set (context_tce (completion_context evt)) (error evt)])"

text \<open>
  The reference count as the specification words it: for a history of calls of
  \<^verbatim>\<open>add_users\<close> and \<^verbatim>\<open>remove_users\<close>, the number of calls that add the id minus
  the number of calls that remove it, clamped at 0.
\<close>

datatype api_call = Add_users_call "xuid list" | Remove_users_call "xuid list"

fun adds_id :: "xuid \<Rightarrow> api_call \<Rightarrow> bool" where
  "adds_id k (Add_users_call ids) = (k \<in> set ids)"
| "adds_id k (Remove_users_call ids) = False"

fun removes_id :: "xuid \<Rightarrow> api_call \<Rightarrow> bool" where
  "removes_id k (Add_users_call ids) = False"
| "removes_id k (Remove_users_call ids) = (k \<in> set ids)"

definition specified_ref_count :: "api_call list \<Rightarrow> xuid \<Rightarrow> int" where
  "specified_ref_count history k =
     max 0 (int (length (filter (adds_id k) history)) - int (length (filter (removes_id k) history)))"

text \<open>
  What the application of an event has no business with: which buffer is active and which
  is inactive, the cached events of the two buffers, the internal queue, the counter of
  the frame, the initialised flag, and the earlier calls of \<^verbatim>\<open>apply_event\<close>.
\<close>

definition worker_frame ::
  "social_graph \<Rightarrow> buffer_name option \<times> buffer_name option \<times> internal_social_event list
     \<times> internal_social_event list \<times> internal_social_event list \<times> 32 word \<times> bool
     \<times> call list" where
  "worker_frame g =
     (m_activeBuffer (m_userBuffer g), m_inactiveBuffer (m_userBuffer g),
      socialUserEventQueue (get_buffer Buffer_A (m_userBuffer g)),
      socialUserEventQueue (get_buffer Buffer_B (m_userBuffer g)),
      m_internalEventQueue g, m_numEventsThisFrame g, m_isInitialized g,
      filter is_apply_event (calls g))"

definition fresh_applies :: "social_graph \<Rightarrow> nat" where
  "fresh_applies g = length (filter is_fresh_apply_event (calls g))"

text \<open>
  Six calls of \<^verbatim>\<open>add_users\<close>, five steps of the worker and one frame of the
  application.
\<close>

definition sample_pushes :: "step list" where
  "sample_pushes =
     map (\<lambda>k. Push_event (event_of_strings ise_users_added [k])) [201, 202, 203, 204, 205, 206]"

definition sample_burst :: "step list" where
  "sample_burst = sample_pushes @ replicate 5 Do_event_work @ [Do_work]"

section \<open>Properties\<close>

subsection \<open>Buffers and fields\<close>

lemma get_buffer_set_buffer [simp]:
  "get_buffer b (set_buffer b' ub h) = (if b = b' then ub else get_buffer b h)"
  by (cases b; cases b') (simp_all add: get_buffer_def set_buffer_def)

lemma set_buffer_roles [simp]:
  "m_activeBuffer (set_buffer b ub h) = m_activeBuffer h"
  "m_inactiveBuffer (set_buffer b ub h) = m_inactiveBuffer h"
  by (cases b; simp add: set_buffer_def)+

lemma with_buffer_fields [simp]:
  "m_userBuffer (with_buffer b ub g) = set_buffer b ub (m_userBuffer g)"
  "m_internalEventQueue (with_buffer b ub g) = m_internalEventQueue g"
  "m_socialEventQueue (with_buffer b ub g) = m_socialEventQueue g"
  "m_socialGraphState (with_buffer b ub g) = m_socialGraphState g"
  "m_isInitialized (with_buffer b ub g) = m_isInitialized g"
  "m_numEventsThisFrame (with_buffer b ub g) = m_numEventsThisFrame g"
  "m_userAddedContext (with_buffer b ub g) = m_userAddedContext g"
  "m_socialUserSubscriptions (with_buffer b ub g) = m_socialUserSubscriptions g"
  "config_title_id (with_buffer b ub g) = config_title_id g"
  "calls (with_buffer b ub g) = calls g"
  by (simp_all add: with_buffer_def)

lemma push_social_event_fields [simp]:
  "m_userBuffer (push_social_event e t r g) = m_userBuffer g"
  "m_internalEventQueue (push_social_event e t r g) = m_internalEventQueue g"
  "m_socialEventQueue (push_social_event e t r g) = event_queue_push e t r (m_socialEventQueue g)"
  "m_socialGraphState (push_social_event e t r g) = m_socialGraphState g"
  "m_isInitialized (push_social_event e t r g) = m_isInitialized g"
  "m_numEventsThisFrame (push_social_event e t r g) = m_numEventsThisFrame g"
  "m_userAddedContext (push_social_event e t r g) = m_userAddedContext g"
  "m_socialUserSubscriptions (push_social_event e t r g) = m_socialUserSubscriptions g"
  "config_title_id (push_social_event e t r g) = config_title_id g"
  "calls (push_social_event e t r g) = calls g"
  by (simp_all add: push_social_event_def)

text \<open>
  The weak pointer that \<^verbatim>\<open>unsubscribe_users\<close> captures is never assigned, so its task
  returns at once, whatever the users.
\<close>

lemma unsubscribe_users_id [simp]: "unsubscribe_users users g = g"
  by (simp add: unsubscribe_users_def weak_lock_def)


subsection \<open>The frame pump\<close>






subsection \<open>Adding and removing users\<close>

lemma users_added_loop_absent:
  "set ids \<inter> fst ` set gr = {} \<Longrightarrow> users_added_loop ids gr acc = (gr, acc @ ids)"
proof (induction ids arbitrary: acc)
  case Nil
  then show ?case by simp
next
  case (Cons k ids)
  from Cons.prems have "map_of gr k = None" by (simp add: map_of_eq_None_iff)
  moreover from Cons.prems have "set ids \<inter> fst ` set gr = {}" by auto
  ultimately show ?case using Cons.IH [of "acc @ [k]"] by simp
qed

lemma insert_new_users_map:
  "map_of (insert_new_users ids gr) k =
     (if k \<in> set ids then Some \<lparr>socialUser = None, refCount = 1\<rparr> else map_of gr k)"
  by (induction ids arbitrary: gr) (simp_all add: update_conv')

lemma users_removed_loop_pending:
  "distinct ids \<Longrightarrow> \<forall>k\<in>set ids. map_of gr k = Some \<lparr>socialUser = None, refCount = 1\<rparr> \<Longrightarrow>
     \<exists>gr'. users_removed_loop ids gr acc et =
             (gr', acc, if ids = [] then et else users_removed_from_social_graph) \<and>
           (\<forall>k. map_of gr' k = (if k \<in> set ids then None else map_of gr k))"
proof (induction ids arbitrary: gr et)
  case Nil
  then show ?case by simp
next
  case (Cons k ids)
  let ?gr1 = "AList.delete k (AList.update k \<lparr>socialUser = None, refCount = 0\<rparr> gr)"
  from Cons.prems have ctx: "graph_context k gr = \<lparr>socialUser = None, refCount = 1\<rparr>"
    by (simp add: graph_context_def)
  have m1: "map_of ?gr1 = (map_of gr)(k := None)"
    by (simp add: delete_conv' update_conv')
  from Cons.prems have "\<forall>j\<in>set ids. map_of ?gr1 j = Some \<lparr>socialUser = None, refCount = 1\<rparr>"
    by (auto simp: m1)
  moreover from Cons.prems have "distinct ids" by simp
  ultimately obtain gr' where
    r: "users_removed_loop ids ?gr1 acc users_removed_from_social_graph =
          (gr', acc, if ids = [] then users_removed_from_social_graph else users_removed_from_social_graph)"
    and m: "\<forall>j. map_of gr' j = (if j \<in> set ids then None else map_of ?gr1 j)"
    using Cons.IH [of ?gr1 users_removed_from_social_graph] by blast
  have "users_removed_loop (k # ids) gr acc et = (gr', acc, users_removed_from_social_graph)"
    using r by (simp add: ctx Let_def)
  moreover have "\<forall>j. map_of gr' j = (if j \<in> set (k # ids) then None else map_of gr j)"
    using m by (simp add: m1)
  ultimately show ?case by simp
qed


lemma apply_users_added_event_absent:
  assumes "set (users_affected_as_string_vec evt) \<inter> fst ` set (socialUserGraph (get_buffer b (m_userBuffer g))) = {}"
  shows "get_buffer b (m_userBuffer (apply_users_added_event evt b fresh g)) =
           (get_buffer b (m_userBuffer g))
             \<lparr>socialUserGraph := insert_new_users (users_affected_as_string_vec evt)
                                   (socialUserGraph (get_buffer b (m_userBuffer g)))\<rparr>"
    and "m_inactiveBuffer (m_userBuffer (apply_users_added_event evt b fresh g)) = m_inactiveBuffer (m_userBuffer g)"
  using assms
  by (simp_all add: apply_users_added_event_def Let_def users_added_loop_absent with_buffer_def)

text \<open>
  C9. For distinct ids, none of them in the graph of the inactive buffer, applying a
  \<open>users_added\<close> event for them and then a \<open>users_removed\<close> event for them
  (fresh or replayed) succeeds; in between every id is in the map with a null user and a
  count of 1, afterwards none of them is, and the map is the one before the two events,
  counts included; the allocation and the free list are untouched.
\<close>

theorem users_added_then_removed_restores_graph:
  assumes inactive: "m_inactiveBuffer (m_userBuffer g) = Some b"
    and ids: "distinct ids"
    and absent: "set ids \<inter> fst ` set (socialUserGraph (get_buffer b (m_userBuffer g))) = {}"
    and added: "event_type added = ise_users_added" "users_affected_as_string_vec added = ids"
    and removed: "event_type removed = ise_users_removed" "users_to_remove removed = ids"
  shows "\<exists>g1 g2. apply_event X added fresh1 g = Inr g1 \<and> apply_event X removed fresh2 g1 = Inr g2 \<and>
           (\<forall>k\<in>set ids. map_of (socialUserGraph (get_buffer b (m_userBuffer g1))) k =
                            Some \<lparr>socialUser = None, refCount = 1\<rparr>) \<and>
           (\<forall>k\<in>set ids. map_of (socialUserGraph (get_buffer b (m_userBuffer g2))) k = None) \<and>
           map_of (socialUserGraph (get_buffer b (m_userBuffer g2))) =
             map_of (socialUserGraph (get_buffer b (m_userBuffer g))) \<and>
           buffer (get_buffer b (m_userBuffer g2)) = buffer (get_buffer b (m_userBuffer g)) \<and>
           freeData (get_buffer b (m_userBuffer g2)) = freeData (get_buffer b (m_userBuffer g))"
proof -
  let ?gr = "socialUserGraph (get_buffer b (m_userBuffer g))"
  let ?g0 = "g\<lparr>calls := calls g @ [Apply_event added fresh1]\<rparr>"
  let ?ga = "apply_users_added_event added b fresh1 ?g0"
  let ?g1 = "if fresh1 then push_social_event added unknown xbox_live_result_ok ?ga else ?ga"
  have step1: "apply_event X added fresh1 g = Inr ?g1"
    using inactive added by (simp add: apply_event_def Let_def)
  have absent0: "set (users_affected_as_string_vec added) \<inter> fst ` set (socialUserGraph (get_buffer b (m_userBuffer ?g0))) = {}"
    using absent added by simp
  have buf1: "get_buffer b (m_userBuffer ?g1) =
                (get_buffer b (m_userBuffer g))\<lparr>socialUserGraph := insert_new_users ids ?gr\<rparr>"
    using apply_users_added_event_absent(1) [OF absent0, of fresh1] added
    by (cases fresh1) simp_all
  have in1: "m_inactiveBuffer (m_userBuffer ?g1) = Some b"
    using apply_users_added_event_absent(2) [OF absent0, of fresh1] inactive
    by (cases fresh1) simp_all
  have pend: "\<forall>k\<in>set ids. map_of (insert_new_users ids ?gr) k = Some \<lparr>socialUser = None, refCount = 1\<rparr>"
    by (simp add: insert_new_users_map)
  let ?et = "if ids = [] then unknown else users_removed_from_social_graph"
  from users_removed_loop_pending [OF ids pend, of "[]" unknown] obtain gr' where
    loop: "users_removed_loop ids (insert_new_users ids ?gr) [] unknown = (gr', [], ?et)"
    and m: "\<forall>k. map_of gr' k = (if k \<in> set ids then None else map_of (insert_new_users ids ?gr) k)"
    by auto
  let ?g10 = "?g1\<lparr>calls := calls ?g1 @ [Apply_event removed fresh2]\<rparr>"
  let ?gr2 = "with_buffer b ((get_buffer b (m_userBuffer g))\<lparr>socialUserGraph := gr'\<rparr>) ?g10"
  let ?g2 = "if fresh2 then push_social_event removed ?et xbox_live_result_ok ?gr2 else ?gr2"
  have buf10: "get_buffer b (m_userBuffer ?g10) =
                (get_buffer b (m_userBuffer g))\<lparr>socialUserGraph := insert_new_users ids ?gr\<rparr>"
    using buf1 by simp
  have in10: "m_inactiveBuffer (m_userBuffer ?g10) = Some b" using in1 by simp
  have rem: "apply_users_removed_event removed b unknown fresh2 ?g10 = (?gr2, ?et)"
    unfolding apply_users_removed_event_def buf10 using removed loop by (simp add: Let_def)
  have step2: "apply_event X removed fresh2 ?g1 = Inr ?g2"
    unfolding apply_event_def using in10 removed rem by (simp add: Let_def)
  have buf2: "get_buffer b (m_userBuffer ?g2) = (get_buffer b (m_userBuffer g))\<lparr>socialUserGraph := gr'\<rparr>"
    by (cases fresh2) simp_all
  have absentk: "\<And>k. k \<in> set ids \<Longrightarrow> map_of ?gr k = None"
    using absent by (auto simp: map_of_eq_None_iff)
  have restored: "map_of gr' = map_of ?gr"
    using m absentk by (auto simp: insert_new_users_map fun_eq_iff)
  show ?thesis
    apply (rule exI [of _ ?g1], rule exI [of _ ?g2])
    using step1 step2 pend m restored unfolding buf1 buf2 by simp
qed


theorem users_added_then_removed_restores_graph_witness:
  "\<exists>g1 g2.
     apply_event sample_collaborators (event_of_strings ise_users_added [200, 300]) True sample_graph = Inr g1 \<and>
     apply_event sample_collaborators (event_of_ids ise_users_removed [200, 300]) True g1 = Inr g2 \<and>
     map_of (socialUserGraph (get_buffer Buffer_B (m_userBuffer g1))) 200 =
       Some \<lparr>socialUser = None, refCount = 1\<rparr> \<and>
     map_of (socialUserGraph (get_buffer Buffer_B (m_userBuffer g1))) 300 =
       Some \<lparr>socialUser = None, refCount = 1\<rparr> \<and>
     map_of (socialUserGraph (get_buffer Buffer_B (m_userBuffer g2))) 200 = None \<and>
     map_of (socialUserGraph (get_buffer Buffer_B (m_userBuffer g2))) 300 = None \<and>
     map_of (socialUserGraph (get_buffer Buffer_B (m_userBuffer g2))) =
       map_of (socialUserGraph (get_buffer Buffer_B (m_userBuffer sample_graph)))"
proof -
  have 1: "m_inactiveBuffer (m_userBuffer sample_graph) = Some Buffer_B" by code_simp
  have 2: "distinct [200, 300 :: xuid]" by simp
  have g: "socialUserGraph (get_buffer Buffer_B (m_userBuffer sample_graph)) =
             [(100, \<lparr>socialUser = Some (0, 0), refCount = 1\<rparr>)]" by code_simp
  have 3: "set [200, 300] \<inter> fst ` set (socialUserGraph (get_buffer Buffer_B (m_userBuffer sample_graph))) = {}"
    unfolding g by simp
  have 4: "event_type (event_of_strings ise_users_added [200, 300]) = ise_users_added"
    "users_affected_as_string_vec (event_of_strings ise_users_added [200, 300]) = [200, 300]"
    "event_type (event_of_ids ise_users_removed [200, 300]) = ise_users_removed"
    "users_to_remove (event_of_ids ise_users_removed [200, 300]) = [200, 300]"
    by (simp_all add: event_of_strings_def event_of_ids_def empty_event_def)
  from users_added_then_removed_restores_graph [OF 1 2 3 4, of sample_collaborators True True]
  show ?thesis by (simp, blast)
qed

subsection \<open>A failed fetch\<close>

lemma apply_event_failed_users_changed:
  assumes "event_type evt = ise_users_changed"
    and "err (error evt) \<noteq> no_error"
    and "m_inactiveBuffer (m_userBuffer g) = Some b"
  shows "apply_event X evt isFreshEvent g =
           Inr (g\<lparr>m_socialEventQueue := m_socialEventQueue g @ [fetch_error_event evt],
                  calls := calls g @ [Apply_event evt isFreshEvent] @ completion_calls evt\<rparr>)"
  using assms
  by (simp add: apply_event_def apply_users_change_event_def Let_def event_queue_push_def
      push_social_event_def fetch_error_event_def completion_calls_def)

lemma sample_failed_fetch_pushed:
  "social_graph_timer_callback [200] sample_completion_context sample_failure [] g =
     push_internal_event sample_failed_fetch g"
  by (simp add: social_graph_timer_callback_def sample_failure_def sample_failed_fetch_def)

text \<open>
  C6. A \<open>users_changed\<close> event that carries an error, applied fresh or replayed while
  there is an inactive buffer: the promise of its completion context, if it has one, is
  completed with that error; one public \<open>users_added_to_social_graph\<close> event carrying
  the error code and message is queued; and both buffers, with every user and every map
  entry in them, are as before.
\<close>

theorem failed_users_changed_leaves_graph:
  assumes "event_type evt = ise_users_changed"
    and "err (error evt) \<noteq> no_error"
    and "m_inactiveBuffer (m_userBuffer g) = Some b"
  shows "\<exists>g'. apply_event X evt isFreshEvent g = Inr g' \<and>
           m_userBuffer g' = m_userBuffer g \<and>
           m_socialEventQueue g' =
             m_socialEventQueue g @
               [\<lparr>se_event_type = users_added_to_social_graph,
                 se_users_affected = users_affected_as_string_vec evt,
                 se_err = err (error evt), se_err_message = err_message (error evt)\<rparr>] \<and>
           calls g' =
             calls g @ [Apply_event evt isFreshEvent] @
               (if isNull (completion_context evt) then []
                else [Tce_set (context_tce (completion_context evt)) (error evt)])"
  using apply_event_failed_users_changed [OF assms, of X isFreshEvent]
  by (simp add: fetch_error_event_def completion_calls_def)

theorem failed_users_changed_leaves_graph_witness:
  "m_internalEventQueue
     (social_graph_timer_callback [200] sample_completion_context sample_failure [] sample_graph) =
     [sample_failed_fetch] \<and>
   (\<exists>g'. apply_event sample_collaborators sample_failed_fetch True sample_graph = Inr g' \<and>
         m_userBuffer g' = m_userBuffer sample_graph \<and>
         m_socialEventQueue g' =
           [\<lparr>se_event_type = users_added_to_social_graph, se_users_affected = [200],
             se_err = other_error 500, se_err_message = ''fetch failed''\<rparr>] \<and>
         calls g' = calls sample_graph @ [Apply_event sample_failed_fetch True, Tce_set 42 sample_failure])"
proof -
  have 1: "event_type sample_failed_fetch = ise_users_changed" by code_simp
  have 2: "err (error sample_failed_fetch) \<noteq> no_error" by code_simp
  have 3: "m_inactiveBuffer (m_userBuffer sample_graph) = Some Buffer_B" by code_simp
  have 4: "m_socialEventQueue sample_graph = []" by code_simp
  have 5: "users_affected_as_string_vec sample_failed_fetch = [200]"
    "error sample_failed_fetch = sample_failure"
    "completion_context sample_failed_fetch = sample_completion_context"
    by (simp_all add: sample_failed_fetch_def event_of_strings_def empty_event_def)
  have 6: "m_internalEventQueue
     (social_graph_timer_callback [200] sample_completion_context sample_failure [] sample_graph) =
     [sample_failed_fetch]"
    unfolding sample_failed_fetch_pushed by code_simp
  from failed_users_changed_leaves_graph [OF 1 2 3, of sample_collaborators True] 4 5 6
  show ?thesis by (simp add: sample_failure_def sample_completion_context_def)
qed

text \<open>
  C10. One \<open>users_changed\<close> event that carries an error, alone in the internal queue of
  an initialised graph whose two buffers have no cached events: the worker applies it
  fresh and caches it on the active buffer; the next \<^verbatim>\<open>do_work\<close> hands the error
  event to the application and swaps; the worker then replays the cached event on the
  other buffer, which queues the same error event again; the following \<^verbatim>\<open>do_work\<close>
  hands it over a second time. The promise of the completion context, if there is one, is
  completed once in each of the two applications.
\<close>

theorem failed_fetch_reported_twice:
  assumes evt: "event_type evt = ise_users_changed" "err (error evt) \<noteq> no_error"
    and init: "m_isInitialized g"
    and roles: "m_activeBuffer (m_userBuffer g) = Some a" "m_inactiveBuffer (m_userBuffer g) = Some b" "a \<noteq> b"
    and cached: "socialUserEventQueue (get_buffer a (m_userBuffer g)) = []"
                "socialUserEventQueue (get_buffer b (m_userBuffer g)) = []"
    and queue: "m_internalEventQueue g = [evt]"
    and frame: "m_numEventsThisFrame g < NUM_EVENTS_PER_FRAME"
  shows "\<exists>g1 g2 g3 g4.
           run_step X Do_event_work (g, socialEvents) = Inr (g1, socialEvents) \<and>
           socialUserEventQueue (get_buffer a (m_userBuffer g1)) = [evt] \<and>
           socialUserEventQueue (get_buffer b (m_userBuffer g1)) = [] \<and>
           run_step X Do_work (g1, socialEvents) =
             Inr (g2, socialEvents @ m_socialEventQueue g @ [fetch_error_event evt]) \<and>
           m_inactiveBuffer (m_userBuffer g2) = Some a \<and>
           run_step X Do_event_work (g2, socialEvents @ m_socialEventQueue g @ [fetch_error_event evt]) =
             Inr (g3, socialEvents @ m_socialEventQueue g @ [fetch_error_event evt]) \<and>
           run_step X Do_work (g3, socialEvents @ m_socialEventQueue g @ [fetch_error_event evt]) =
             Inr (g4, socialEvents @ m_socialEventQueue g @ [fetch_error_event evt, fetch_error_event evt]) \<and>
           run X [Do_event_work, Do_work, Do_event_work, Do_work] (g, socialEvents) =
             Inr (g4, socialEvents @ m_socialEventQueue g @ [fetch_error_event evt, fetch_error_event evt]) \<and>
           calls g4 = calls g @ [Apply_event evt True] @ completion_calls evt
                             @ [Apply_event evt False] @ completion_calls evt"
proof -
  let ?h = "m_userBuffer g"
  let ?h1 = "set_buffer a ((get_buffer a ?h)\<lparr>socialUserEventQueue := [evt]\<rparr>) ?h"
  let ?g1 = "g\<lparr>m_socialGraphState := normal,
               m_numEventsThisFrame := m_numEventsThisFrame g + 1,
               m_internalEventQueue := [],
               m_socialEventQueue := m_socialEventQueue g @ [fetch_error_event evt],
               calls := calls g @ [Apply_event evt True] @ completion_calls evt,
               m_userBuffer := ?h1\<rparr>"
  have s1: "do_event_work X g = Inr (True, ?g1)"
    using init roles cached queue frame
    by (simp add: do_event_work_def process_events_def Let_def
        apply_event_failed_users_changed [OF evt] add_event_def)
  have h1a: "get_buffer a ?h1 = (get_buffer a ?h)\<lparr>socialUserEventQueue := [evt]\<rparr>"
    and h1b: "get_buffer b ?h1 = get_buffer b ?h"
    using roles by simp_all
  let ?h2 = "?h1\<lparr>m_activeBuffer := Some b, m_inactiveBuffer := Some a\<rparr>"
  have sw1: "swap_buffers ?h1 = ?h2"
    using roles by (cases a; cases b) (simp_all add: swap_buffers_def)
  let ?g2 = "?g1\<lparr>m_numEventsThisFrame := 0, m_userBuffer := ?h2, m_socialEventQueue := []\<rparr>"
  have s2: "do_work socialEvents ?g1 =
              (\<lparr>socialUsers = Some b\<rparr>, socialEvents @ m_socialEventQueue g @ [fetch_error_event evt], ?g2)"
    using roles cached by (simp add: do_work_def Let_def h1b sw1)
  have h2a: "get_buffer a ?h2 = (get_buffer a ?h)\<lparr>socialUserEventQueue := [evt]\<rparr>"
    using h1a by (simp add: get_buffer_def split: buffer_name.splits)
  let ?h3 = "set_buffer a (get_buffer a ?h) ?h2"
  let ?g3 = "?g2\<lparr>m_userBuffer := ?h3, m_socialGraphState := normal,
                m_socialEventQueue := [fetch_error_event evt],
                calls := calls ?g1 @ [Apply_event evt False] @ completion_calls evt\<rparr>"
  have q0: "(get_buffer a ?h)\<lparr>socialUserEventQueue := []\<rparr> = get_buffer a ?h"
    using cached by (metis user_buffer.surjective user_buffer.update_convs(4) user_buffer.select_convs(4))
  have s3: "do_event_work X ?g2 = Inr (True, ?g3)"
    using init
    by (simp add: do_event_work_def process_cached_events_def Let_def h2a
        apply_event_failed_users_changed [OF evt, where b = a] with_buffer_def q0)
  have h3a: "get_buffer a ?h3 = get_buffer a ?h" by simp
  let ?h4 = "?h3\<lparr>m_activeBuffer := Some a, m_inactiveBuffer := Some b\<rparr>"
  have sw2: "swap_buffers ?h3 = ?h4"
    using roles by (cases a; cases b) (simp_all add: swap_buffers_def)
  let ?g4 = "?g3\<lparr>m_numEventsThisFrame := 0, m_userBuffer := ?h4, m_socialEventQueue := []\<rparr>"
  have s4: "do_work out ?g3 = (\<lparr>socialUsers = Some a\<rparr>, out @ [fetch_error_event evt], ?g4)" for out
    using cached by (simp add: do_work_def Let_def h3a sw2)
  show ?thesis
    apply (rule exI [of _ ?g1], rule exI [of _ ?g2], rule exI [of _ ?g3], rule exI [of _ ?g4])
    using s1 s2 s3 s4 h1a h1b cached by simp
qed

theorem failed_fetch_reported_twice_witness:
  "\<exists>g4. run sample_collaborators [Do_event_work, Do_work, Do_event_work, Do_work]
           (push_internal_event sample_failed_fetch sample_graph, []) =
           Inr (g4, [fetch_error_event sample_failed_fetch, fetch_error_event sample_failed_fetch]) \<and>
        calls g4 = calls sample_graph @
          [Apply_event sample_failed_fetch True, Tce_set 42 sample_failure,
           Apply_event sample_failed_fetch False, Tce_set 42 sample_failure]"
proof -
  let ?g = "push_internal_event sample_failed_fetch sample_graph"
  have 1: "event_type sample_failed_fetch = ise_users_changed" by code_simp
  have 2: "err (error sample_failed_fetch) \<noteq> no_error" by code_simp
  have 3: "m_isInitialized ?g" by code_simp
  have 4: "m_activeBuffer (m_userBuffer ?g) = Some Buffer_A" by code_simp
  have 5: "m_inactiveBuffer (m_userBuffer ?g) = Some Buffer_B" by code_simp
  have 6: "Buffer_A \<noteq> Buffer_B" by simp
  have 7: "socialUserEventQueue (get_buffer Buffer_A (m_userBuffer ?g)) = []" by code_simp
  have 8: "socialUserEventQueue (get_buffer Buffer_B (m_userBuffer ?g)) = []" by code_simp
  have 9: "m_internalEventQueue ?g = [sample_failed_fetch]" by code_simp
  have 10: "m_numEventsThisFrame ?g < NUM_EVENTS_PER_FRAME" by code_simp
  have 11: "m_socialEventQueue ?g = []" by code_simp
  have 12: "calls ?g = calls sample_graph" by (simp add: push_internal_event_def)
  have 13: "completion_calls sample_failed_fetch = [Tce_set 42 sample_failure]"
    by (simp add: completion_calls_def sample_failed_fetch_def sample_completion_context_def)
  from failed_fetch_reported_twice [OF 1 2 3 4 5 6 7 8 9 10, of sample_collaborators "[]"] 11 12 13
  show ?thesis by auto
qed

subsection \<open>Reference counts\<close>

lemma bind_res_Inr_iff: "bind_res m f = Inr y \<longleftrightarrow> (\<exists>x. m = Inr x \<and> f x = Inr y)"
  by (cases m) simp_all

lemma users_added_loop_counts:
  "\<exists>gr'. users_added_loop ids gr acc = (gr', acc @ filter (\<lambda>j. map_of gr j = None) ids) \<and>
         (\<forall>k. map_of gr' k =
                map_option (\<lambda>c. c\<lparr>refCount := refCount c + of_nat (count_list ids k)\<rparr>) (map_of gr k))"
proof (induction ids arbitrary: gr acc)
  case Nil
  show ?case by (simp add: option.map_ident)
next
  case (Cons j ids)
  show ?case
  proof (cases "map_of gr j")
    case None
    from Cons.IH [of gr "acc @ [j]"] obtain gr' where
      r: "users_added_loop ids gr (acc @ [j]) = (gr', (acc @ [j]) @ filter (\<lambda>j. map_of gr j = None) ids)"
      and m: "\<forall>k. map_of gr' k =
                map_option (\<lambda>c. c\<lparr>refCount := refCount c + of_nat (count_list ids k)\<rparr>) (map_of gr k)"
      by blast
    have "\<forall>k. map_of gr' k =
                map_option (\<lambda>c. c\<lparr>refCount := refCount c + of_nat (count_list (j # ids) k)\<rparr>) (map_of gr k)"
      using m None by auto
    with r None show ?thesis by simp
  next
    case (Some c)
    let ?gr1 = "AList.update j (c\<lparr>refCount := refCount c + 1\<rparr>) gr"
    have f: "filter (\<lambda>i. map_of ?gr1 i = None) ids = filter (\<lambda>i. map_of gr i = None) ids"
      using Some by (intro filter_cong) (auto simp: update_conv')
    from Cons.IH [of ?gr1 acc] obtain gr' where
      r: "users_added_loop ids ?gr1 acc = (gr', acc @ filter (\<lambda>i. map_of ?gr1 i = None) ids)"
      and m: "\<forall>k. map_of gr' k =
                map_option (\<lambda>c. c\<lparr>refCount := refCount c + of_nat (count_list ids k)\<rparr>) (map_of ?gr1 k)"
      by blast
    have "\<forall>k. map_of gr' k =
                map_option (\<lambda>c. c\<lparr>refCount := refCount c + of_nat (count_list (j # ids) k)\<rparr>) (map_of gr k)"
      using m Some by (auto simp: update_conv' add.assoc add.commute)
    with r f Some show ?thesis by simp
  qed
qed

lemma users_removed_loop_step:
  "users_removed_loop (j # ids) gr acc et =
     users_removed_loop ids
       (if refCount (graph_context j gr) = 1 \<and> socialUser (graph_context j gr) = None
        then AList.delete j gr
        else AList.update j ((graph_context j gr)\<lparr>refCount := refCount (graph_context j gr) - 1\<rparr>) gr)
       (if refCount (graph_context j gr) = 1 \<and> socialUser (graph_context j gr) \<noteq> None
        then acc @ [j] else acc)
       (if refCount (graph_context j gr) = 1 then users_removed_from_social_graph else et)"
proof -
  have one: "(refCount (graph_context j gr) - 1 = 0) = (refCount (graph_context j gr) = 1)"
    by auto
  show ?thesis by (auto simp: Let_def one delete_update_same)
qed

lemma users_removed_loop_other:
  "k \<notin> set ids \<Longrightarrow> users_removed_loop ids gr acc et = (gr', acc', et') \<Longrightarrow>
     map_of gr' k = map_of gr k \<and> (k \<in> set acc') = (k \<in> set acc)"
proof (induction ids arbitrary: gr acc et)
  case Nil
  then show ?case by simp
next
  case (Cons j ids)
  from Cons.prems(1) have jk: "j \<noteq> k" and nk: "k \<notin> set ids" by auto
  from Cons.prems(2) [unfolded users_removed_loop_step] Cons.IH [OF nk] jk
  show ?case by (auto simp: update_conv' delete_conv' split: if_splits)
qed

lemma users_removed_loop_once:
  "count_list ids k = 1 \<Longrightarrow> users_removed_loop ids gr acc et = (gr', acc', et') \<Longrightarrow>
     map_of gr' k =
       (if refCount (graph_context k gr) = 1 \<and> socialUser (graph_context k gr) = None then None
        else Some ((graph_context k gr)\<lparr>refCount := refCount (graph_context k gr) - 1\<rparr>)) \<and>
     (k \<in> set acc') =
       (k \<in> set acc \<or> refCount (graph_context k gr) = 1 \<and> socialUser (graph_context k gr) \<noteq> None)"
proof (induction ids arbitrary: gr acc et)
  case Nil
  then show ?case by simp
next
  case (Cons j ids)
  show ?case
  proof (cases "j = k")
    case True
    with Cons.prems(1) have "count_list ids k = 0" by simp
    then have nk: "k \<notin> set ids" by (simp add: count_list_0_iff)
    from users_removed_loop_other [OF nk Cons.prems(2) [unfolded users_removed_loop_step]] True
    show ?thesis by (auto simp: update_conv' delete_conv' split: if_splits)
  next
    case False
    with Cons.prems(1) have c: "count_list ids k = 1" by simp
    have ctx: "graph_context k (AList.delete j gr) = graph_context k gr"
      "graph_context k (AList.update j v gr) = graph_context k gr" for v
      using False by (simp_all add: graph_context_def update_conv' delete_conv')
    from Cons.IH [OF c Cons.prems(2) [unfolded users_removed_loop_step]] False
    show ?thesis by (auto simp: ctx split: if_splits)
  qed
qed


lemma remove_users_from_buffer_map:
  "map_of (socialUserGraph (remove_users_from_buffer rs ub)) k =
     (if k \<in> set rs then None else map_of (socialUserGraph ub) k)"
  by (induction rs arbitrary: ub) (auto simp: delete_conv' split: option.splits)

lemma remove_users_from_buffer_kept:
  "buffer (remove_users_from_buffer rs ub) = buffer ub"
  "socialUserEventQueue (remove_users_from_buffer rs ub) = socialUserEventQueue ub"
  by (induction rs arbitrary: ub) (auto split: option.splits)


lemma initialize_users_at_counts:
  "initialize_users_at idx ub = Inr ub' \<Longrightarrow>
     \<forall>k c. map_of (socialUserGraph ub) k = Some c \<longrightarrow> refCount c = 1 \<Longrightarrow>
     \<forall>k c. map_of (socialUserGraph ub') k = Some c \<longrightarrow> refCount c = 1"
proof (induction idx arbitrary: ub)
  case Nil
  then show ?case by simp
next
  case (Cons i idx)
  from Cons.prems(1) obtain a slots u where
    b: "buffer ub = Some (a, slots)" and u: "read_user ub (a, i) = Inr u"
    by (auto simp: bind_res_Inr_iff split: option.splits)
  let ?g = "socialUserGraph ub"
  let ?ub1 = "ub\<lparr>socialUserGraph :=
                (case map_of ?g (xbox_user_id u) of
                   None \<Rightarrow> AList.update (xbox_user_id u) \<lparr>socialUser = Some (a, i), refCount = 1\<rparr> ?g
                 | Some c \<Rightarrow> AList.update (xbox_user_id u) (c\<lparr>socialUser := Some (a, i)\<rparr>) ?g)\<rparr>"
  from Cons.prems(1) b u have r: "initialize_users_at idx ?ub1 = Inr ub'"
    by (simp add: Let_def)
  have "\<forall>k c. map_of (socialUserGraph ?ub1) k = Some c \<longrightarrow> refCount c = 1"
    using Cons.prems(2) by (auto simp: update_conv' split: option.splits if_splits)
  from Cons.IH [OF r this] show ?case .
qed


lemma buffer_init_graph [simp]:
  "socialUserGraph (buffer_init users n ub) = socialUserGraph ub"
  by (simp add: buffer_init_def Let_def split: option.splits)

lemma initialize_buffer_counts:
  "initialize_buffer users n ub = Inr ub' \<Longrightarrow>
     \<forall>k c. map_of (socialUserGraph ub) k = Some c \<longrightarrow> refCount c = 1 \<Longrightarrow>
     \<forall>k c. map_of (socialUserGraph ub') k = Some c \<longrightarrow> refCount c = 1"
  unfolding initialize_buffer_def initialize_users_in_map_def
  by (erule initialize_users_at_counts) simp

lemma initial_subscriptions_buffers:
  "initial_subscriptions gs ub g = Inr g' \<Longrightarrow> m_userBuffer g' = m_userBuffer g"
proof (induction gs arbitrary: g)
  case Nil
  then show ?case by simp
next
  case (Cons kc gs)
  obtain k c where kc: "kc = (k, c)" by (cases kc)
  from Cons.prems kc obtain p u where "socialUser c = Some p" "read_user ub p = Inr u"
    by (auto simp: bind_res_Inr_iff split: option.splits)
  with Cons.prems kc Cons.IH show ?case by (auto simp: bind_res_Inr_iff)
qed

lemma initialize_counts:
  assumes "initialize socialUsersResult payload (new_social_graph t) = Inr (r, g')"
  shows "\<forall>b k c. map_of (socialUserGraph (get_buffer b (m_userBuffer g'))) k = Some c \<longrightarrow> refCount c = 1"
proof (cases "err socialUsersResult \<noteq> no_error \<and> err socialUsersResult \<noteq> http_status_424_failed_dependency")
  case True
  with assms have "g' = new_social_graph t" by (simp add: initialize_def)
  then show ?thesis
    by (simp add: new_social_graph_def new_user_buffers_holder_def empty_user_buffer_def
        get_buffer_def split: buffer_name.splits)
next
  case False
  let ?h0 = "m_userBuffer (new_social_graph t)"
  from assms False obtain h where h: "initialize_holder payload ?h0 = Inr h"
    by (cases "initialize_holder payload ?h0") (auto simp: initialize_def)
  from assms False h obtain b0 g2 where
    "initial_subscriptions (socialUserGraph (get_buffer b0 h)) (get_buffer b0 h)
       ((new_social_graph t)\<lparr>m_userBuffer := h\<rparr>) = Inr g2" and g': "g' = g2\<lparr>m_isInitialized := True\<rparr>"
    by (auto simp: initialize_def Let_def bind_res_Inr_iff split: option.splits)
  from initial_subscriptions_buffers [OF this(1)] g' have hb: "m_userBuffer g' = h" by simp
  from h obtain ua ub where
    a: "initialize_buffer payload 0 (m_userBufferA ?h0) = Inr ua"
    and b: "initialize_buffer payload 0 (m_userBufferB ?h0) = Inr ub"
    and hh: "m_userBufferA h = ua" "m_userBufferB h = ub"
    by (auto simp: initialize_holder_def bind_res_Inr_iff)
  have e: "\<forall>k c. map_of (socialUserGraph (m_userBufferA ?h0)) k = Some c \<longrightarrow> refCount c = 1"
     "\<forall>k c. map_of (socialUserGraph (m_userBufferB ?h0)) k = Some c \<longrightarrow> refCount c = 1"
    by (simp_all add: new_social_graph_def new_user_buffers_holder_def empty_user_buffer_def)
  from initialize_buffer_counts [OF a e(1)] initialize_buffer_counts [OF b e(2)] hh hb
  show ?thesis by (auto simp: get_buffer_def split: buffer_name.splits)
qed

lemma apply_event_users_added_per_id:
  assumes inactive: "m_inactiveBuffer (m_userBuffer g) = Some b"
    and evt: "event_type evt = ise_users_added"
  shows "\<exists>g'. apply_event X evt isFreshEvent g = Inr g' \<and>
           (\<forall>k. map_of (socialUserGraph (get_buffer b (m_userBuffer g'))) k =
              (if k \<in> set (users_affected_as_string_vec evt) then
                 (case map_of (socialUserGraph (get_buffer b (m_userBuffer g))) k of
                    Some c \<Rightarrow>
                      Some (c\<lparr>refCount := refCount c + of_nat (count_list (users_affected_as_string_vec evt) k)\<rparr>)
                  | None \<Rightarrow> Some \<lparr>socialUser = None, refCount = 1\<rparr>)
               else map_of (socialUserGraph (get_buffer b (m_userBuffer g))) k))"
proof -
  let ?ids = "users_affected_as_string_vec evt"
  let ?gr = "socialUserGraph (get_buffer b (m_userBuffer g))"
  let ?new = "filter (\<lambda>k. map_of ?gr k = None) ?ids"
  from users_added_loop_counts [of ?ids ?gr "[]"] obtain gr' where
    loop: "users_added_loop ?ids ?gr [] = (gr', ?new)"
    and m: "\<forall>k. map_of gr' k =
              map_option (\<lambda>c. c\<lparr>refCount := refCount c + of_nat (count_list ?ids k)\<rparr>) (map_of ?gr k)"
    by auto
  let ?gc = "g\<lparr>calls := calls g @ [Apply_event evt isFreshEvent]\<rparr>"
  let ?ga = "apply_users_added_event evt b isFreshEvent ?gc"
  let ?gf = "if isFreshEvent then push_social_event evt unknown xbox_live_result_ok ?ga else ?ga"
  have step: "apply_event X evt isFreshEvent g = Inr ?gf"
    using inactive evt by (simp add: apply_event_def Let_def)
  have gr1: "socialUserGraph (get_buffer b (m_userBuffer ?gf)) = insert_new_users ?new gr'"
    using loop by (cases "?new = []") (simp_all add: apply_users_added_event_def Let_def)
  have "map_of (insert_new_users ?new gr') k =
              (if k \<in> set ?ids then
                 (case map_of ?gr k of
                    Some c \<Rightarrow> Some (c\<lparr>refCount := refCount c + of_nat (count_list ?ids k)\<rparr>)
                  | None \<Rightarrow> Some \<lparr>socialUser = None, refCount = 1\<rparr>)
               else map_of ?gr k)" for k
  proof (cases "k \<in> set ?ids")
    case True
    with m [rule_format, of k] show ?thesis
      by (auto simp: insert_new_users_map split: option.splits)
  next
    case False
    then have "count_list ?ids k = 0" by (simp add: count_list_0_iff)
    with False m [rule_format, of k] show ?thesis
      by (cases "map_of ?gr k") (auto simp: insert_new_users_map)
  qed
  with step gr1 show ?thesis by (intro exI [of _ ?gf]) (simp only:, simp)
qed

lemma apply_event_users_removed_per_id:
  assumes inactive: "m_inactiveBuffer (m_userBuffer g) = Some b"
    and evt: "event_type evt = ise_users_removed"
  shows "\<exists>g'. apply_event X evt isFreshEvent g = Inr g' \<and>
           (\<forall>k. k \<notin> set (users_to_remove evt) \<longrightarrow>
              map_of (socialUserGraph (get_buffer b (m_userBuffer g'))) k =
                map_of (socialUserGraph (get_buffer b (m_userBuffer g))) k) \<and>
           (\<forall>k c. count_list (users_to_remove evt) k = 1 \<and>
                  map_of (socialUserGraph (get_buffer b (m_userBuffer g))) k = Some c \<longrightarrow>
              map_of (socialUserGraph (get_buffer b (m_userBuffer g'))) k =
                (if refCount c = 1 then None else Some (c\<lparr>refCount := refCount c - 1\<rparr>)))"
proof -
  let ?ids = "users_to_remove evt"
  let ?ub = "get_buffer b (m_userBuffer g)"
  let ?gr = "socialUserGraph ?ub"
  obtain gr' rs et' where loop: "users_removed_loop ?ids ?gr [] unknown = (gr', rs, et')"
    by (cases "users_removed_loop ?ids ?gr [] unknown") auto
  let ?gc = "g\<lparr>calls := calls g @ [Apply_event evt isFreshEvent]\<rparr>"
  let ?gb = "with_buffer b (remove_users_from_buffer rs (?ub\<lparr>socialUserGraph := gr'\<rparr>)) ?gc"
  let ?gf = "if isFreshEvent then push_social_event evt et' xbox_live_result_ok ?gb else ?gb"
  have rem: "apply_users_removed_event evt b unknown isFreshEvent ?gc = (?gb, et')"
    using loop by (simp add: apply_users_removed_event_def Let_def)
  have step: "apply_event X evt isFreshEvent g = Inr ?gf"
    using inactive evt rem by (simp add: apply_event_def Let_def)
  have gr1: "map_of (socialUserGraph (get_buffer b (m_userBuffer ?gf))) k =
               (if k \<in> set rs then None else map_of gr' k)" for k
    by (cases isFreshEvent) (simp_all add: remove_users_from_buffer_map)
  have other: "map_of (socialUserGraph (get_buffer b (m_userBuffer ?gf))) k = map_of ?gr k"
    if "k \<notin> set ?ids" for k
    using users_removed_loop_other [OF that loop] by (simp add: gr1)
  have once: "map_of (socialUserGraph (get_buffer b (m_userBuffer ?gf))) k =
                (if refCount c = 1 then None else Some (c\<lparr>refCount := refCount c - 1\<rparr>))"
    if "count_list ?ids k = 1" and "map_of ?gr k = Some c" for k c
  proof -
    from that(2) have "graph_context k ?gr = c" by (simp add: graph_context_def)
    with users_removed_loop_once [OF that(1) loop] show ?thesis
      by (auto simp: gr1)
  qed
  from step other once show ?thesis by (intro exI [of _ ?gf]) (simp only:, blast)
qed

text \<open>
  C3, as amended. An id enters the graph with a count of 1: every id that
  \<^verbatim>\<open>initialize\<close> loads has count 1 in both buffers, without any call of
  \<^verbatim>\<open>add_users\<close>, and a \<open>users_added\<close> event inserts an id that is not in the graph
  with a null user and count 1. A \<open>users_added\<close> event adds to the count of an id of
  the graph the number of times it lists the id (modulo \<open>2 ^ 32\<close>), so one for an
  id it lists once, and leaves alone the ids it does not list. A \<open>users_removed\<close>
  event leaves alone the ids it does not list; for an id of the graph that it lists once
  and whose count is not 0, the id is no longer in the map after the event when the count
  was 1, and otherwise the stored count is one less, as a number, and still positive.
  Nothing is asked of the other ids of either event: they may be listed several times,
  or not be in the graph.
\<close>

theorem ref_count_steps:
  assumes "m_inactiveBuffer (m_userBuffer g) = Some b"
  shows "(initialize socialUsersResult payload (new_social_graph t) = Inr (r, g0) \<longrightarrow>
            (\<forall>b' k c. map_of (socialUserGraph (get_buffer b' (m_userBuffer g0))) k = Some c \<longrightarrow> refCount c = 1)) \<and>
         (event_type added = ise_users_added \<longrightarrow>
            (\<exists>g'. apply_event X added isFreshEvent g = Inr g' \<and>
               (\<forall>k. map_of (socialUserGraph (get_buffer b (m_userBuffer g'))) k =
                  (if k \<in> set (users_affected_as_string_vec added) then
                     (case map_of (socialUserGraph (get_buffer b (m_userBuffer g))) k of
                        Some c \<Rightarrow>
                          Some (c\<lparr>refCount :=
                                   refCount c + of_nat (count_list (users_affected_as_string_vec added) k)\<rparr>)
                      | None \<Rightarrow> Some \<lparr>socialUser = None, refCount = 1\<rparr>)
                   else map_of (socialUserGraph (get_buffer b (m_userBuffer g))) k)) \<and>
               (\<forall>k c. count_list (users_affected_as_string_vec added) k = 1 \<and>
                      map_of (socialUserGraph (get_buffer b (m_userBuffer g))) k = Some c \<longrightarrow>
                  map_of (socialUserGraph (get_buffer b (m_userBuffer g'))) k =
                    Some (c\<lparr>refCount := refCount c + 1\<rparr>)))) \<and>
         (event_type removed = ise_users_removed \<longrightarrow>
            (\<exists>g'. apply_event X removed isFreshEvent g = Inr g' \<and>
               (\<forall>k. k \<notin> set (users_to_remove removed) \<longrightarrow>
                  map_of (socialUserGraph (get_buffer b (m_userBuffer g'))) k =
                    map_of (socialUserGraph (get_buffer b (m_userBuffer g))) k) \<and>
               (\<forall>k c. count_list (users_to_remove removed) k = 1 \<and>
                      map_of (socialUserGraph (get_buffer b (m_userBuffer g))) k = Some c \<and>
                      refCount c \<noteq> 0 \<longrightarrow>
                  (refCount c = 1 \<longrightarrow>
                     map_of (socialUserGraph (get_buffer b (m_userBuffer g'))) k = None) \<and>
                  (refCount c \<noteq> 1 \<longrightarrow>
                     (\<exists>c'. map_of (socialUserGraph (get_buffer b (m_userBuffer g'))) k = Some c' \<and>
                           socialUser c' = socialUser c \<and>
                           unat (refCount c') = unat (refCount c) - 1 \<and>
                           0 < unat (refCount c'))))))"
proof (intro conjI impI)
  assume "initialize socialUsersResult payload (new_social_graph t) = Inr (r, g0)"
  from initialize_counts [OF this]
  show "\<forall>b' k c. map_of (socialUserGraph (get_buffer b' (m_userBuffer g0))) k = Some c \<longrightarrow> refCount c = 1" .
next
  assume a: "event_type added = ise_users_added"
  from apply_event_users_added_per_id [OF assms a, of X isFreshEvent] obtain g' where
    s: "apply_event X added isFreshEvent g = Inr g'"
    and m: "\<forall>k. map_of (socialUserGraph (get_buffer b (m_userBuffer g'))) k =
                  (if k \<in> set (users_affected_as_string_vec added) then
                     (case map_of (socialUserGraph (get_buffer b (m_userBuffer g))) k of
                        Some c \<Rightarrow>
                          Some (c\<lparr>refCount :=
                                   refCount c + of_nat (count_list (users_affected_as_string_vec added) k)\<rparr>)
                      | None \<Rightarrow> Some \<lparr>socialUser = None, refCount = 1\<rparr>)
                   else map_of (socialUserGraph (get_buffer b (m_userBuffer g))) k)"
    by blast
  have "map_of (socialUserGraph (get_buffer b (m_userBuffer g'))) k = Some (c\<lparr>refCount := refCount c + 1\<rparr>)"
    if "count_list (users_affected_as_string_vec added) k = 1"
      and "map_of (socialUserGraph (get_buffer b (m_userBuffer g))) k = Some c" for k c
  proof -
    from that(1) have "k \<in> set (users_affected_as_string_vec added)"
      by (metis count_list_0_iff zero_neq_one)
    with m [rule_format, of k] that show ?thesis by simp
  qed
  with s m show "\<exists>g'. apply_event X added isFreshEvent g = Inr g' \<and>
               (\<forall>k. map_of (socialUserGraph (get_buffer b (m_userBuffer g'))) k =
                  (if k \<in> set (users_affected_as_string_vec added) then
                     (case map_of (socialUserGraph (get_buffer b (m_userBuffer g))) k of
                        Some c \<Rightarrow>
                          Some (c\<lparr>refCount :=
                                   refCount c + of_nat (count_list (users_affected_as_string_vec added) k)\<rparr>)
                      | None \<Rightarrow> Some \<lparr>socialUser = None, refCount = 1\<rparr>)
                   else map_of (socialUserGraph (get_buffer b (m_userBuffer g))) k)) \<and>
               (\<forall>k c. count_list (users_affected_as_string_vec added) k = 1 \<and>
                      map_of (socialUserGraph (get_buffer b (m_userBuffer g))) k = Some c \<longrightarrow>
                  map_of (socialUserGraph (get_buffer b (m_userBuffer g'))) k =
                    Some (c\<lparr>refCount := refCount c + 1\<rparr>))"
    by blast
next
  assume a: "event_type removed = ise_users_removed"
  from apply_event_users_removed_per_id [OF assms a, of X isFreshEvent] obtain g' where
    s: "apply_event X removed isFreshEvent g = Inr g'"
    and o: "\<forall>k. k \<notin> set (users_to_remove removed) \<longrightarrow>
              map_of (socialUserGraph (get_buffer b (m_userBuffer g'))) k =
                map_of (socialUserGraph (get_buffer b (m_userBuffer g))) k"
    and m: "\<forall>k c. count_list (users_to_remove removed) k = 1 \<and>
                  map_of (socialUserGraph (get_buffer b (m_userBuffer g))) k = Some c \<longrightarrow>
              map_of (socialUserGraph (get_buffer b (m_userBuffer g'))) k =
                (if refCount c = 1 then None else Some (c\<lparr>refCount := refCount c - 1\<rparr>))"
    by blast
  have "(refCount c = 1 \<longrightarrow>
           map_of (socialUserGraph (get_buffer b (m_userBuffer g'))) k = None) \<and>
        (refCount c \<noteq> 1 \<longrightarrow>
           (\<exists>c'. map_of (socialUserGraph (get_buffer b (m_userBuffer g'))) k = Some c' \<and>
                 socialUser c' = socialUser c \<and>
                 unat (refCount c') = unat (refCount c) - 1 \<and>
                 0 < unat (refCount c')))"
    if h: "count_list (users_to_remove removed) k = 1 \<and>
        map_of (socialUserGraph (get_buffer b (m_userBuffer g))) k = Some c \<and> refCount c \<noteq> 0" for k c
  proof (cases "refCount c = 1")
    case True
    with m h show ?thesis by simp
  next
    case False
    from h have u: "unat (refCount c - 1) = unat (refCount c) - 1" by (simp add: unat_minus_one)
    from h have "unat (refCount c) \<noteq> 0" by (simp add: unat_eq_zero)
    moreover from False have "unat (refCount c) \<noteq> 1"
      using word_unat_eq_iff [of "refCount c" 1] by simp
    ultimately have "unat (refCount c) \<noteq> 0" "unat (refCount c) \<noteq> 1" by simp_all
    then have "0 < unat (refCount c - 1)" using u by simp
    with m h False u show ?thesis by simp
  qed
  with s o show "\<exists>g'. apply_event X removed isFreshEvent g = Inr g' \<and>
               (\<forall>k. k \<notin> set (users_to_remove removed) \<longrightarrow>
                  map_of (socialUserGraph (get_buffer b (m_userBuffer g'))) k =
                    map_of (socialUserGraph (get_buffer b (m_userBuffer g))) k) \<and>
               (\<forall>k c. count_list (users_to_remove removed) k = 1 \<and>
                      map_of (socialUserGraph (get_buffer b (m_userBuffer g))) k = Some c \<and>
                      refCount c \<noteq> 0 \<longrightarrow>
                  (refCount c = 1 \<longrightarrow>
                     map_of (socialUserGraph (get_buffer b (m_userBuffer g'))) k = None) \<and>
                  (refCount c \<noteq> 1 \<longrightarrow>
                     (\<exists>c'. map_of (socialUserGraph (get_buffer b (m_userBuffer g'))) k = Some c' \<and>
                           socialUser c' = socialUser c \<and>
                           unat (refCount c') = unat (refCount c) - 1 \<and>
                           0 < unat (refCount c'))))"
    by blast
qed

text \<open>
  The claim as stated fails on the graph after \<^verbatim>\<open>initialize\<close> with one followed user:
  no call of \<^verbatim>\<open>add_users\<close> or \<^verbatim>\<open>remove_users\<close> has been made, the specified count
  of the user is 0, the stored count is 1.
\<close>

theorem ref_count_of_loaded_user_counterexample:
  "map_option refCount (map_of (socialUserGraph (get_buffer Buffer_B (m_userBuffer sample_graph))) 100) = Some 1 \<and>
   map_option refCount (map_of (socialUserGraph (get_buffer Buffer_A (m_userBuffer sample_graph))) 100) = Some 1 \<and>
   specified_ref_count [] 100 = 0"
  by code_simp

theorem ref_count_steps_witness:
  "initialize xbox_live_result_ok [sample_user 100 ''Alice''] (new_social_graph 7) =
     Inr (xbox_live_result_ok, sample_graph) \<and>
   map_option refCount (map_of (socialUserGraph (get_buffer Buffer_A (m_userBuffer sample_graph))) 100) = Some 1 \<and>
   (\<exists>g'. apply_event sample_collaborators (event_of_ids ise_users_removed [100, 7]) True sample_graph = Inr g' \<and>
         map_of (socialUserGraph (get_buffer Buffer_B (m_userBuffer g'))) 100 = None) \<and>
   (\<exists>g' g''. apply_event sample_collaborators (event_of_strings ise_users_added [100, 200, 200]) True sample_graph = Inr g' \<and>
         map_of (socialUserGraph (get_buffer Buffer_B (m_userBuffer g'))) 100 =
           Some \<lparr>socialUser = Some (0, 0), refCount = 2\<rparr> \<and>
         map_of (socialUserGraph (get_buffer Buffer_B (m_userBuffer g'))) 200 =
           Some \<lparr>socialUser = None, refCount = 1\<rparr> \<and>
         apply_event sample_collaborators (event_of_ids ise_users_removed [100, 7]) True g' = Inr g'' \<and>
         map_option refCount (map_of (socialUserGraph (get_buffer Buffer_B (m_userBuffer g''))) 100) = Some 1 \<and>
         map_of (socialUserGraph (get_buffer Buffer_B (m_userBuffer g''))) 200 =
           Some \<lparr>socialUser = None, refCount = 1\<rparr>)"
proof -
  let ?add = "event_of_strings ise_users_added [100, 200, 200]"
  let ?rem = "event_of_ids ise_users_removed [100, 7]"
  have 1: "m_inactiveBuffer (m_userBuffer sample_graph) = Some Buffer_B" by code_simp
  have 3: "initialize xbox_live_result_ok [sample_user 100 ''Alice''] (new_social_graph 7) =
     Inr (xbox_live_result_ok, sample_graph)" by code_simp
  have 4: "event_type ?add = ise_users_added" "users_affected_as_string_vec ?add = [100, 200, 200]"
    by (simp_all add: event_of_strings_def empty_event_def)
  have 5: "event_type ?rem = ise_users_removed" "users_to_remove ?rem = [100, 7]"
    by (simp_all add: event_of_ids_def empty_event_def)
  have g: "socialUserGraph (get_buffer Buffer_B (m_userBuffer sample_graph)) =
             [(100, \<lparr>socialUser = Some (0, 0), refCount = 1\<rparr>)]" by code_simp
  have ga_inactive: "(case apply_event sample_collaborators ?add True sample_graph of
          Inr ga \<Rightarrow> m_inactiveBuffer (m_userBuffer ga) = Some Buffer_B | Inl e \<Rightarrow> False)"
    by code_simp
  note s = ref_count_steps [OF 1, of xbox_live_result_ok "[sample_user 100 ''Alice'']" 7
      xbox_live_result_ok sample_graph ?add sample_collaborators True ?rem]
  from s 3 have i: "\<forall>b' k c. map_of (socialUserGraph (get_buffer b' (m_userBuffer sample_graph))) k = Some c \<longrightarrow> refCount c = 1"
    by blast
  have "map_of (socialUserGraph (get_buffer Buffer_A (m_userBuffer sample_graph))) 100 =
      Some \<lparr>socialUser = Some (0, 0), refCount = 1\<rparr>"
    by code_simp
  with i have A: "map_option refCount (map_of (socialUserGraph (get_buffer Buffer_A (m_userBuffer sample_graph))) 100) = Some 1"
    by auto
  from s 4(1) obtain ga where ga: "apply_event sample_collaborators ?add True sample_graph = Inr ga"
    "\<forall>k. map_of (socialUserGraph (get_buffer Buffer_B (m_userBuffer ga))) k =
        (if k \<in> set (users_affected_as_string_vec ?add) then
           (case map_of (socialUserGraph (get_buffer Buffer_B (m_userBuffer sample_graph))) k of
              Some c \<Rightarrow> Some (c\<lparr>refCount := refCount c + of_nat (count_list (users_affected_as_string_vec ?add) k)\<rparr>)
            | None \<Rightarrow> Some \<lparr>socialUser = None, refCount = 1\<rparr>)
         else map_of (socialUserGraph (get_buffer Buffer_B (m_userBuffer sample_graph))) k)"
    by blast
  have a100: "map_of (socialUserGraph (get_buffer Buffer_B (m_userBuffer ga))) 100 =
           Some \<lparr>socialUser = Some (0, 0), refCount = 2\<rparr>"
    and a200: "map_of (socialUserGraph (get_buffer Buffer_B (m_userBuffer ga))) 200 =
           Some \<lparr>socialUser = None, refCount = 1\<rparr>"
    using ga(2) [rule_format, of 100] ga(2) [rule_format, of 200]
    unfolding g 4(2) by simp_all
  from s 5(1) obtain gr where gr: "apply_event sample_collaborators ?rem True sample_graph = Inr gr"
    "\<forall>k c. count_list (users_to_remove ?rem) k = 1 \<and>
        map_of (socialUserGraph (get_buffer Buffer_B (m_userBuffer sample_graph))) k = Some c \<and>
        refCount c \<noteq> 0 \<longrightarrow>
        (refCount c = 1 \<longrightarrow> map_of (socialUserGraph (get_buffer Buffer_B (m_userBuffer gr))) k = None)"
    by blast
  have r100: "map_of (socialUserGraph (get_buffer Buffer_B (m_userBuffer gr))) 100 = None"
    using gr(2) [rule_format, of 100 "\<lparr>socialUser = Some (0, 0), refCount = 1\<rparr>"]
    unfolding g 5(2) by simp
  from ga_inactive ga(1) have 6: "m_inactiveBuffer (m_userBuffer ga) = Some Buffer_B" by simp
  note t = ref_count_steps [OF 6, of xbox_live_result_ok "[sample_user 100 ''Alice'']" 7
      xbox_live_result_ok sample_graph ?add sample_collaborators True ?rem]
  from t 5(1) obtain gb where gb: "apply_event sample_collaborators ?rem True ga = Inr gb"
    "\<forall>k. k \<notin> set (users_to_remove ?rem) \<longrightarrow>
        map_of (socialUserGraph (get_buffer Buffer_B (m_userBuffer gb))) k =
        map_of (socialUserGraph (get_buffer Buffer_B (m_userBuffer ga))) k"
    "\<forall>k c. count_list (users_to_remove ?rem) k = 1 \<and>
        map_of (socialUserGraph (get_buffer Buffer_B (m_userBuffer ga))) k = Some c \<and>
        refCount c \<noteq> 0 \<longrightarrow>
        (refCount c \<noteq> 1 \<longrightarrow>
           (\<exists>c'. map_of (socialUserGraph (get_buffer Buffer_B (m_userBuffer gb))) k = Some c' \<and>
                 socialUser c' = socialUser c \<and>
                 unat (refCount c') = unat (refCount c) - 1 \<and>
                 0 < unat (refCount c')))"
    by blast
  from gb(3) [rule_format, of 100 "\<lparr>socialUser = Some (0, 0), refCount = 2\<rparr>"] a100
  obtain c' where c': "map_of (socialUserGraph (get_buffer Buffer_B (m_userBuffer gb))) 100 = Some c'"
    "unat (refCount c') = 1"
    unfolding 5(2) by auto
  from c'(2) have "refCount c' = 1" using word_unat_eq_iff [of "refCount c'" 1] by simp
  with c'(1) have b100: "map_option refCount (map_of (socialUserGraph (get_buffer Buffer_B (m_userBuffer gb))) 100) = Some 1"
    by simp
  have b200: "map_of (socialUserGraph (get_buffer Buffer_B (m_userBuffer gb))) 200 =
           Some \<lparr>socialUser = None, refCount = 1\<rparr>"
    using gb(2) [rule_format, of 200] a200 unfolding 5(2) by simp
  from 3 A gr(1) r100 ga(1) a100 a200 gb(1) b100 b200 show ?thesis by blast
qed

text \<open>
  What the amended statement leaves out: a \<open>users_removed\<close> event for an id that is not
  in the graph. \<^verbatim>\<open>operator[]\<close> inserts the id with count 0 and the decrement wraps.
\<close>

lemma users_removed_untracked_wraps:
  "(case do_event_work sample_collaborators (remove_users [7] sample_graph) of
      Inr (hasRemainingEvent, g) \<Rightarrow>
        map_of (socialUserGraph (get_buffer Buffer_B (m_userBuffer g))) 7 =
          Some \<lparr>socialUser = None, refCount = 4294967295\<rparr>
    | Inl e \<Rightarrow> False)"
  by code_simp

subsection \<open>Device presence\<close>

lemma write_after_read:
  assumes "read_user ub p = Inr u"
  shows "\<exists>ub'. write_user ub p v = Inr ub' \<and> read_user ub' p = Inr v \<and>
           socialUserGraph ub' = socialUserGraph ub \<and> freeData ub' = freeData ub \<and>
           socialUserEventQueue ub' = socialUserEventQueue ub"
  using assms
  by (auto simp: read_user_def write_user_def split: option.splits if_splits)

text \<open>
  C7, as amended. A \<open>device_presence_changed\<close> event for an id of the inactive graph
  whose slot holds a user. If the user has more than one title record or the event says
  the user is logged on: both buffers and the public queue are left as they are, and a
  fresh event fires the presence refresh timer for the id (a replayed one does not).
  Otherwise: the presence record of the stored user becomes \<^verbatim>\<open>_Update_device\<close> of it,
  the timer is not fired, and a fresh event queues one public \<open>presence_changed\<close>
  event; a replayed event queues none.
\<close>

theorem device_presence_changed_applied:
  assumes evt: "event_type evt = ise_device_presence_changed"
    and inactive: "m_inactiveBuffer (m_userBuffer g) = Some b"
    and tracked: "map_of (socialUserGraph (get_buffer b (m_userBuffer g)))
                    (dp_xbox_user_id (device_presence_args evt)) = Some c"
    and slot: "socialUser c = Some p"
    and user: "read_user (get_buffer b (m_userBuffer g)) p = Inr u"
  shows "(1 < length (presence_title_records (presence_record u)) \<or>
          is_user_logged_on_device (device_presence_args evt) \<longrightarrow>
            (\<exists>g'. apply_event X evt isFreshEvent g = Inr g' \<and>
                  m_userBuffer g' = m_userBuffer g \<and>
                  m_socialEventQueue g' = m_socialEventQueue g \<and>
                  calls g' = calls g @ [Apply_event evt isFreshEvent] @
                    (if isFreshEvent
                     then [Presence_refresh_timer_fire [dp_xbox_user_id (device_presence_args evt)]]
                     else []))) \<and>
         (\<not> (1 < length (presence_title_records (presence_record u)) \<or>
             is_user_logged_on_device (device_presence_args evt)) \<longrightarrow>
            (\<exists>g'. apply_event X evt isFreshEvent g = Inr g' \<and>
                  read_user (get_buffer b (m_userBuffer g')) p =
                    Inr (u\<lparr>presence_record :=
                            Update_device X (dp_device_type (device_presence_args evt))
                              (is_user_logged_on_device (device_presence_args evt)) (presence_record u)\<rparr>) \<and>
                  socialUserGraph (get_buffer b (m_userBuffer g')) =
                    socialUserGraph (get_buffer b (m_userBuffer g)) \<and>
                  m_socialEventQueue g' =
                    m_socialEventQueue g @
                      (if isFreshEvent
                       then [\<lparr>se_event_type = presence_changed,
                              se_users_affected = users_affected_as_string_vec evt,
                              se_err = no_error, se_err_message = []\<rparr>]
                       else []) \<and>
                  calls g' = calls g @ [Apply_event evt isFreshEvent]))"
proof (intro conjI impI)
  assume fire: "1 < length (presence_title_records (presence_record u)) \<or>
          is_user_logged_on_device (device_presence_args evt)"
  show "\<exists>g'. apply_event X evt isFreshEvent g = Inr g' \<and>
                  m_userBuffer g' = m_userBuffer g \<and>
                  m_socialEventQueue g' = m_socialEventQueue g \<and>
                  calls g' = calls g @ [Apply_event evt isFreshEvent] @
                    (if isFreshEvent
                     then [Presence_refresh_timer_fire [dp_xbox_user_id (device_presence_args evt)]]
                     else [])"
    using evt inactive tracked slot user fire
    by (cases isFreshEvent)
       (auto simp: apply_event_def apply_device_presence_changed_event_def Let_def
          event_queue_push_def push_social_event_def)
next
  assume quiet: "\<not> (1 < length (presence_title_records (presence_record u)) \<or>
             is_user_logged_on_device (device_presence_args evt))"
  let ?v = "u\<lparr>presence_record :=
                 Update_device X (dp_device_type (device_presence_args evt))
                   (is_user_logged_on_device (device_presence_args evt)) (presence_record u)\<rparr>"
  from write_after_read [OF user, of ?v] obtain ub' where
    w: "write_user (get_buffer b (m_userBuffer g)) p ?v = Inr ub'"
    and r: "read_user ub' p = Inr ?v"
    and k: "socialUserGraph ub' = socialUserGraph (get_buffer b (m_userBuffer g))" by blast
  show "\<exists>g'. apply_event X evt isFreshEvent g = Inr g' \<and>
                  read_user (get_buffer b (m_userBuffer g')) p = Inr ?v \<and>
                  socialUserGraph (get_buffer b (m_userBuffer g')) =
                    socialUserGraph (get_buffer b (m_userBuffer g)) \<and>
                  m_socialEventQueue g' =
                    m_socialEventQueue g @
                      (if isFreshEvent
                       then [\<lparr>se_event_type = presence_changed,
                              se_users_affected = users_affected_as_string_vec evt,
                              se_err = no_error, se_err_message = []\<rparr>]
                       else []) \<and>
                  calls g' = calls g @ [Apply_event evt isFreshEvent]"
    using evt inactive tracked slot user quiet w r k
    by (cases isFreshEvent)
       (auto simp: apply_event_def apply_device_presence_changed_event_def Let_def
          event_queue_push_def push_social_event_def xbox_live_result_ok_def)
qed

text \<open>
  The claim as stated fails for a replayed event: the cached copy of a log-off of the
  user 100 updates the stored record and queues no public event.
\<close>

theorem device_presence_replay_counterexample:
  "(case apply_event sample_collaborators (sample_device_event False) False sample_graph of
      Inr g' \<Rightarrow>
        read_user (get_buffer Buffer_B (m_userBuffer sample_graph)) (0, 0) = Inr (sample_user 100 ''Alice'') \<and>
        read_user (get_buffer Buffer_B (m_userBuffer g')) (0, 0) =
          Inr ((sample_user 100 ''Alice'')
                 \<lparr>presence_record := \<lparr>record_xbox_user_id = 100, presence_title_records = []\<rparr>\<rparr>) \<and>
        m_socialEventQueue g' = []
    | Inl e \<Rightarrow> False)"
  by code_simp

theorem device_presence_changed_applied_witness:
  "(\<exists>g'. apply_event sample_collaborators (sample_device_event True) True sample_graph = Inr g' \<and>
         m_userBuffer g' = m_userBuffer sample_graph \<and>
         m_socialEventQueue g' = m_socialEventQueue sample_graph \<and>
         calls g' = calls sample_graph @
           [Apply_event (sample_device_event True) True, Presence_refresh_timer_fire [100]]) \<and>
   (\<exists>g'. apply_event sample_collaborators (sample_device_event False) True sample_graph = Inr g' \<and>
         read_user (get_buffer Buffer_B (m_userBuffer g')) (0, 0) =
           Inr ((sample_user 100 ''Alice'')
                  \<lparr>presence_record := \<lparr>record_xbox_user_id = 100, presence_title_records = []\<rparr>\<rparr>) \<and>
         m_socialEventQueue g' =
           [\<lparr>se_event_type = presence_changed, se_users_affected = [100],
             se_err = no_error, se_err_message = []\<rparr>] \<and>
         calls g' = calls sample_graph @ [Apply_event (sample_device_event False) True])"
proof -
  have 1: "event_type (sample_device_event l) = ise_device_presence_changed" for l
    by (simp add: sample_device_event_def empty_event_def)
  have 2: "m_inactiveBuffer (m_userBuffer sample_graph) = Some Buffer_B" by code_simp
  have a: "dp_xbox_user_id (device_presence_args (sample_device_event l)) = 100"
    "dp_device_type (device_presence_args (sample_device_event l)) = 1"
    "is_user_logged_on_device (device_presence_args (sample_device_event l)) = l"
    "users_affected_as_string_vec (sample_device_event l) = [100]" for l
    by (simp_all add: sample_device_event_def empty_event_def)
  have 3: "map_of (socialUserGraph (get_buffer Buffer_B (m_userBuffer sample_graph)))
             (dp_xbox_user_id (device_presence_args (sample_device_event l))) =
             Some \<lparr>socialUser = Some (0, 0), refCount = 1\<rparr>" for l
    unfolding a by code_simp
  have 4: "socialUser \<lparr>socialUser = Some (0, 0), refCount = 1\<rparr> = Some (0, 0)" by simp
  have 5: "read_user (get_buffer Buffer_B (m_userBuffer sample_graph)) (0, 0) = Inr (sample_user 100 ''Alice'')"
    by code_simp
  have 6: "m_socialEventQueue sample_graph = []" by code_simp
  have 7: "presence_title_records (presence_record (sample_user 100 ''Alice'')) =
             [\<lparr>title_id = 7, title_device_type = 1\<rparr>]" by (simp add: sample_user_def)
  have 8: "Update_device sample_collaborators 1 False (presence_record (sample_user 100 ''Alice'')) =
             \<lparr>record_xbox_user_id = 100, presence_title_records = []\<rparr>"
    by (simp add: sample_collaborators_def sample_user_def)
  from device_presence_changed_applied [OF 1 2 3 4 5, of True sample_collaborators True]
       device_presence_changed_applied [OF 1 2 3 4 5, of False sample_collaborators True]
  show ?thesis unfolding a 6 7 8 by (simp, blast)
qed

subsection \<open>Removing a user and its subscriptions\<close>

text \<open>
  C4. The code at the input the claim is about: the graph initialised with the user 100,
  whose two presence subscriptions exist, and \<^verbatim>\<open>remove_users\<close> of 100 applied fresh by
  the worker. The count reaches 0, the user leaves the map of the inactive buffer, its
  slot is appended to the free list and one \<open>users_removed_from_social_graph\<close> event is
  queued, as the claim says; but no unsubscribe call is made and the subscription table
  keeps the entry of 100, where the claim says one device and one title unsubscribe.
\<close>

theorem users_removed_performs_no_unsubscribe:
  "(case do_event_work sample_collaborators (remove_users [100] sample_graph) of
      Inr (hasRemainingEvent, g) \<Rightarrow>
        map_of (socialUserGraph (get_buffer Buffer_B (m_userBuffer g))) 100 = None \<and>
        freeData (get_buffer Buffer_B (m_userBuffer g)) =
          [Some (0, 1), Some (0, 2), Some (0, 3), Some (0, 4), Some (0, 5), Some (0, 0)] \<and>
        m_socialEventQueue g =
          [\<lparr>se_event_type = users_removed_from_social_graph, se_users_affected = [100],
            se_err = no_error, se_err_message = []\<rparr>] \<and>
        filter is_unsubscribe (calls g) = [] \<and>
        map_of (m_socialUserSubscriptions g) 100 =
          Some \<lparr>devicePresenceChangeSubscription = Some 100,
                titlePresenceChangeSubscription = Some (100, 7)\<rparr>
    | Inl e \<Rightarrow> False)"
  by code_simp

subsection \<open>The diff of a full refresh\<close>

lemma diff_fetched_users_added:
  "diff_fetched_users X fetched ub a p f r = Inr (a', p', f', r') \<Longrightarrow>
     a' = a @ map snd (filter (\<lambda>(k, u). map_of (socialUserGraph ub) k = None) fetched)"
proof (induction fetched arbitrary: a p f r)
  case Nil
  then show ?case by simp
next
  case (Cons ku fetched)
  obtain k u where ku: "ku = (k, u)" by (cases ku)
  show ?case
  proof (cases "map_of (socialUserGraph ub) k")
    case None
    with Cons.prems ku have "diff_fetched_users X fetched ub (a @ [u]) p f r = Inr (a', p', f', r')"
      by simp
    from Cons.IH [OF this] None ku show ?thesis by simp
  next
    case (Some c)
    with Cons.prems ku obtain p1 f1 r1 where
      "diff_fetched_users X fetched ub a p1 f1 r1 = Inr (a', p', f', r')"
      by (auto simp: bind_res_Inr_iff Let_def split: option.splits)
    from Cons.IH [OF this] Some ku show ?thesis by simp
  qed
qed

lemma diff_previous_users_removed:
  "diff_previous_users fetched ub gs acc = Inr acc' \<Longrightarrow>
     acc' = acc @ map fst (filter (\<lambda>(k, c). map_of fetched k = None \<and>
              (\<exists>p u. socialUser c = Some p \<and> read_user ub p = Inr u \<and> is_following_user u)) gs)"
proof (induction gs arbitrary: acc)
  case Nil
  then show ?case by simp
next
  case (Cons kc gs)
  obtain k c where kc: "kc = (k, c)" by (cases kc)
  let ?P = "map_of fetched k = None \<and>
              (\<exists>p u. socialUser c = Some p \<and> read_user ub p = Inr u \<and> is_following_user u)"
  show ?case
  proof (cases ?P)
    case True
    with Cons.prems kc have "diff_previous_users fetched ub gs (acc @ [k]) = Inr acc'"
      by (auto simp: bind_res_Inr_iff)
    from Cons.IH [OF this] True kc show ?thesis by simp
  next
    case False
    with Cons.prems kc have "diff_previous_users fetched ub gs acc = Inr acc'"
      by (auto simp: bind_res_Inr_iff split: option.splits if_splits)
    from Cons.IH [OF this] False kc show ?thesis by simp
  qed
qed

text \<open>
  Where \<^verbatim>\<open>perform_diff\<close> meets no null user it pushes what the claim C8 says: one
  \<open>users_changed\<close> event with the fetched users whose ids are not in the inactive map,
  if there are any, and one \<open>users_removed\<close> event with the ids of the map that are
  not fetched and whose stored user follows the caller, if there are any.
\<close>

lemma perform_diff_enqueues:
  assumes "perform_diff X fetched g = Inr g'"
    and "m_inactiveBuffer (m_userBuffer g) = Some b"
  shows "\<exists>others.
           m_internalEventQueue g' =
             m_internalEventQueue g
             @ (let usersAddedList =
                      map snd (filter (\<lambda>(k, u). map_of (socialUserGraph (get_buffer b (m_userBuffer g))) k = None) fetched)
                in if usersAddedList \<noteq> [] then [event_of_users ise_users_changed usersAddedList] else [])
             @ (let usersRemovedList =
                      map fst (filter (\<lambda>(k, c). map_of fetched k = None \<and>
                         (\<exists>p u. socialUser c = Some p \<and>
                                read_user (get_buffer b (m_userBuffer g)) p = Inr u \<and> is_following_user u))
                         (socialUserGraph (get_buffer b (m_userBuffer g))))
                in if usersRemovedList \<noteq> [] then [event_of_ids ise_users_removed usersRemovedList] else [])
             @ others \<and>
           list_all (\<lambda>e. event_type e \<noteq> ise_users_changed \<and> event_type e \<noteq> ise_users_removed) others"
proof -
  let ?ub = "get_buffer b (m_userBuffer g)"
  from assms obtain a p f r rm where
    d1: "diff_fetched_users X fetched ?ub [] [] [] [] = Inr (a, p, f, r)"
    and d2: "diff_previous_users fetched ?ub (socialUserGraph ?ub) [] = Inr rm"
    and q: "m_internalEventQueue g' =
              m_internalEventQueue g
              @ (if a \<noteq> [] then [event_of_users ise_users_changed a] else [])
              @ (if rm \<noteq> [] then [event_of_ids ise_users_removed rm] else [])
              @ (if p \<noteq> [] then [event_of_presence ise_presence_changed p] else [])
              @ (if f \<noteq> [] then [event_of_users ise_profiles_changed f] else [])
              @ (if r \<noteq> [] then [event_of_users ise_social_relationships_changed r] else [])"
    by (auto simp: perform_diff_def Let_def bind_res_Inr_iff simp del: split_paired_Ex)
  let ?others = "(if p \<noteq> [] then [event_of_presence ise_presence_changed p] else [])
              @ (if f \<noteq> [] then [event_of_users ise_profiles_changed f] else [])
              @ (if r \<noteq> [] then [event_of_users ise_social_relationships_changed r] else [])"
  have "list_all (\<lambda>e. event_type e \<noteq> ise_users_changed \<and> event_type e \<noteq> ise_users_removed) ?others"
    by (simp add: event_of_presence_def event_of_users_def empty_event_def)
  with q diff_fetched_users_added [OF d1] diff_previous_users_removed [OF d2]
  show ?thesis by (intro exI [of _ ?others]) (simp add: Let_def)
qed

text \<open>
  C8. The code at an input where the claim asks for one \<open>users_changed\<close> event: the
  inactive graph holds the user 100 and the id 200, added by \<^verbatim>\<open>add_users\<close> and still
  without a user; the fetched list holds 100, 200 and the new id 300. The claim says that
  a \<open>users_changed\<close> event for 300 is pushed. The first loop dereferences the null user
  of 200 and nothing is pushed.
\<close>

theorem perform_diff_null_user:
  "map_of (socialUserGraph (get_buffer Buffer_B
      (m_userBuffer (sample_run [Push_event (event_of_strings ise_users_added [200]), Do_event_work])))) 200 =
     Some \<lparr>socialUser = None, refCount = 1\<rparr> \<and>
   perform_diff sample_collaborators
     [(100, sample_user 100 ''Alice''), (200, sample_user 200 ''Bob''), (300, sample_user 300 ''Carol'')]
     (sample_run [Push_event (event_of_strings ise_users_added [200]), Do_event_work]) =
     Inl Null_dereference"
  by code_simp

subsection \<open>What applying an event leaves alone\<close>

lemma write_user_queue:
  "write_user ub p u = Inr ub' \<Longrightarrow> socialUserEventQueue ub' = socialUserEventQueue ub"
  by (auto simp: write_user_def split: option.splits if_splits)

lemma buffer_init_queue [simp]:
  "socialUserEventQueue (buffer_init users n ub) = socialUserEventQueue ub"
  by (simp add: buffer_init_def Let_def split: option.splits)

lemma initialize_users_at_queue:
  "initialize_users_at idx ub = Inr ub' \<Longrightarrow> socialUserEventQueue ub' = socialUserEventQueue ub"
proof (induction idx arbitrary: ub)
  case Nil
  then show ?case by simp
next
  case (Cons i idx)
  from Cons.prems obtain ub1 where "initialize_users_at idx ub1 = Inr ub'"
    and "socialUserEventQueue ub1 = socialUserEventQueue ub"
    by (auto simp: bind_res_Inr_iff Let_def split: option.splits)
  with Cons.IH show ?case by simp
qed

lemma initialize_buffer_queue:
  "initialize_buffer users n ub = Inr ub' \<Longrightarrow> socialUserEventQueue ub' = socialUserEventQueue ub"
  by (auto simp: initialize_buffer_def initialize_users_in_map_def dest: initialize_users_at_queue)

lemma initialize_users_in_map_queue:
  "initialize_users_in_map n off ub = Inr ub' \<Longrightarrow> socialUserEventQueue ub' = socialUserEventQueue ub"
  unfolding initialize_users_in_map_def by (rule initialize_users_at_queue)

lemma place_users_queue:
  "place_users users ub = Inr ub' \<Longrightarrow> socialUserEventQueue ub' = socialUserEventQueue ub"
proof (induction users arbitrary: ub)
  case Nil
  then show ?case by simp
next
  case (Cons user users)
  from Cons.prems obtain p free where fd: "freeData ub = Some p # free"
    by (auto split: list.splits option.splits)
  from Cons.prems fd obtain ub1 where
    w: "write_user (ub\<lparr>freeData := free\<rparr>) p user = Inr ub1"
    and rest: "(case buffer ub1 of
                  None \<Rightarrow> Inl Null_dereference
                | Some (a, slots) \<Rightarrow>
                    if fst p \<noteq> a then Inl Dangling_pointer
                    else bind_res (initialize_users_in_map 1 (snd p) ub1) (place_users users)) = Inr ub'"
    by (auto simp: bind_res_Inr_iff)
  from rest obtain ub2 where
    i: "initialize_users_in_map 1 (snd p) ub1 = Inr ub2" and pl: "place_users users ub2 = Inr ub'"
    by (auto simp: bind_res_Inr_iff split: option.splits if_splits)
  from write_user_queue [OF w] initialize_users_in_map_queue [OF i] Cons.IH [OF pl]
  show ?case by simp
qed

lemma add_users_to_buffer_queue:
  "add_users_to_buffer users n ub = Inr ub' \<Longrightarrow> socialUserEventQueue ub' = socialUserEventQueue ub"
  by (auto simp: add_users_to_buffer_def Let_def bind_res_Inr_iff split: if_splits
      dest!: place_users_queue initialize_buffer_queue)

lemma users_change_loop_queue:
  "users_change_loop users ub a c = Inr (ub', a', c') \<Longrightarrow>
     socialUserEventQueue ub' = socialUserEventQueue ub"
proof (induction users arbitrary: ub a c)
  case Nil
  then show ?case by simp
next
  case (Cons user users)
  from Cons.prems obtain ub1 a1 c1 where "users_change_loop users ub1 a1 c1 = Inr (ub', a', c')"
    and "socialUserEventQueue ub1 = socialUserEventQueue ub"
    by (auto simp: bind_res_Inr_iff split: option.splits dest!: write_user_queue)
  with Cons.IH show ?case by simp
qed

lemma presence_changed_loop_queue:
  "presence_changed_loop X rs ub v = Inr (ub', v') \<Longrightarrow>
     socialUserEventQueue ub' = socialUserEventQueue ub"
proof (induction rs arbitrary: ub v)
  case Nil
  then show ?case by simp
next
  case (Cons r rs)
  from Cons.prems obtain ub1 v1 where "presence_changed_loop X rs ub1 v1 = Inr (ub', v')"
    and "socialUserEventQueue ub1 = socialUserEventQueue ub"
    by (auto simp: bind_res_Inr_iff Let_def split: option.splits if_splits dest!: write_user_queue)
  with Cons.IH show ?case by simp
qed

lemma profiles_changed_loop_queue:
  "profiles_changed_loop users ub = Inr ub' \<Longrightarrow> socialUserEventQueue ub' = socialUserEventQueue ub"
proof (induction users arbitrary: ub)
  case Nil
  then show ?case by simp
next
  case (Cons user users)
  from Cons.prems obtain ub1 where "profiles_changed_loop users ub1 = Inr ub'"
    and "socialUserEventQueue ub1 = socialUserEventQueue ub"
    by (auto simp: bind_res_Inr_iff split: option.splits dest!: write_user_queue)
  with Cons.IH show ?case by simp
qed


lemma worker_frame_with_buffer:
  "socialUserEventQueue ub = socialUserEventQueue (get_buffer b (m_userBuffer g)) \<Longrightarrow>
     worker_frame (with_buffer b ub g) = worker_frame g"
  by (cases b) (simp_all add: worker_frame_def)

lemma worker_frame_push_social_event [simp]:
  "worker_frame (push_social_event e t r g) = worker_frame g"
  by (simp add: worker_frame_def)

lemma worker_frame_calls:
  "filter is_apply_event cs = [] \<Longrightarrow> worker_frame (g\<lparr>calls := calls g @ cs\<rparr>) = worker_frame g"
  by (simp add: worker_frame_def)

lemma worker_frame_added_context [simp]:
  "worker_frame (g\<lparr>m_userAddedContext := n\<rparr>) = worker_frame g"
  by (simp add: worker_frame_def)

lemma worker_frame_subscriptions_helper [simp]:
  "worker_frame (setup_device_and_presence_subscriptions_helper users g) = worker_frame g"
  by (induction users arbitrary: g) (simp_all add: worker_frame_def)

lemma worker_frame_subscriptions [simp]:
  "worker_frame (setup_device_and_presence_subscriptions users g) = worker_frame g"
  by (simp add: setup_device_and_presence_subscriptions_def weak_lock_def)

lemma worker_frame_users_added [simp]:
  "worker_frame (apply_users_added_event evt b fresh g) = worker_frame g"
proof -
  obtain gr toAdd where l: "users_added_loop (users_affected_as_string_vec evt)
      (socialUserGraph (get_buffer b (m_userBuffer g))) [] = (gr, toAdd)" by (cases "users_added_loop (users_affected_as_string_vec evt)
      (socialUserGraph (get_buffer b (m_userBuffer g))) []")
  show ?thesis
    unfolding apply_users_added_event_def Let_def l
    by (cases b) (simp_all add: worker_frame_def)
qed

lemma worker_frame_users_removed [simp]:
  "worker_frame (fst (apply_users_removed_event evt b et fresh g)) = worker_frame g"
proof -
  obtain gr rs et' where l: "users_removed_loop (users_to_remove evt)
      (socialUserGraph (get_buffer b (m_userBuffer g))) [] et = (gr, rs, et')"
    by (cases "users_removed_loop (users_to_remove evt)
      (socialUserGraph (get_buffer b (m_userBuffer g))) [] et") auto
  show ?thesis
    unfolding apply_users_removed_event_def Let_def l
    by (simp add: worker_frame_with_buffer remove_users_from_buffer_kept)
qed

lemma worker_frame_users_change:
  assumes "apply_users_change_event evt b fresh g = Inr g'"
  shows "worker_frame g' = worker_frame g"
proof -
  define g1 where "g1 =
     (if \<not> isNull (completion_context evt)
      then g\<lparr>calls := calls g @ [Tce_set (context_tce (completion_context evt)) (error evt)]\<rparr>
      else g)"
  have f1: "worker_frame g1 = worker_frame g" by (simp add: g1_def worker_frame_def)
  have b1: "get_buffer b (m_userBuffer g1) = get_buffer b (m_userBuffer g)" by (simp add: g1_def)
  show ?thesis
  proof (cases "err (error evt) \<noteq> no_error")
    case True
    with assms have "g' = push_social_event evt users_added_to_social_graph (error evt) g1"
      by (simp add: apply_users_change_event_def Let_def g1_def)
    with f1 show ?thesis by (simp only: worker_frame_push_social_event)
  next
    case False
    from assms False obtain ub toAdd changed g3 where
      loop: "users_change_loop (users_affected evt) (get_buffer b (m_userBuffer g)) [] [] = Inr (ub, toAdd, changed)"
      and mid: "(if toAdd \<noteq> [] then
                   bind_res (add_users_to_buffer toAdd (numObjects (completion_context evt)) ub)
                     (\<lambda>ub1. let g2 = with_buffer b ub1 g1; usersList = map xbox_user_id toAdd
                            in Inr (if fresh
                                    then push_social_event (event_of_users ise_users_added toAdd)
                                           users_added_to_social_graph xbox_live_result_ok
                                           (setup_device_and_presence_subscriptions usersList g2)
                                    else g2))
                 else Inr (with_buffer b ub g1)) = Inr g3"
      and fin: "g' = (if changed \<noteq> [] \<and> fresh
                      then push_social_event (event_of_users ise_profiles_changed changed)
                             profiles_changed xbox_live_result_ok g3
                      else g3)"
      unfolding apply_users_change_event_def Let_def g1_def [symmetric] b1
      by (auto simp: bind_res_Inr_iff simp del: split_paired_Ex)
    from users_change_loop_queue [OF loop] b1
    have q: "socialUserEventQueue ub = socialUserEventQueue (get_buffer b (m_userBuffer g1))" by simp
    have "worker_frame g3 = worker_frame g1"
    proof (cases "toAdd = []")
      case True
      with mid have "g3 = with_buffer b ub g1" by simp
      with worker_frame_with_buffer [OF q] show ?thesis by simp
    next
      case False
      with mid obtain ub1 where a: "add_users_to_buffer toAdd (numObjects (completion_context evt)) ub = Inr ub1"
        and g3: "g3 = (if fresh
                       then push_social_event (event_of_users ise_users_added toAdd)
                              users_added_to_social_graph xbox_live_result_ok
                              (setup_device_and_presence_subscriptions (map xbox_user_id toAdd) (with_buffer b ub1 g1))
                       else with_buffer b ub1 g1)"
        by (auto simp: bind_res_Inr_iff Let_def)
      from add_users_to_buffer_queue [OF a] q
      have "socialUserEventQueue ub1 = socialUserEventQueue (get_buffer b (m_userBuffer g1))" by simp
      from worker_frame_with_buffer [OF this] g3 show ?thesis by simp
    qed
    with fin f1 show ?thesis by simp
  qed
qed


lemma worker_frame_device_presence:
  assumes "apply_device_presence_changed_event X evt b fresh et g = Inr (g', et')"
  shows "worker_frame g' = worker_frame g"
proof -
  have w: "worker_frame (with_buffer b ub1 g) = worker_frame g"
    if "read_user (get_buffer b (m_userBuffer g)) p = Inr u"
      and "write_user (get_buffer b (m_userBuffer g)) p v = Inr ub1" for p u v ub1
    using write_user_queue [OF that(2)] by (rule worker_frame_with_buffer)
  from assms show ?thesis
    by (auto simp: apply_device_presence_changed_event_def Let_def bind_res_Inr_iff
        worker_frame_calls w split: option.splits if_splits simp del: with_buffer_fields)
qed

lemma worker_frame_presence_changed:
  assumes "apply_presence_changed_event X evt b fresh g = Inr g'"
  shows "worker_frame g' = worker_frame g"
proof -
  from assms obtain ub v where
    l: "presence_changed_loop X (presence_records evt) (get_buffer b (m_userBuffer g)) [] = Inr (ub, v)"
    and g': "g' = (if fresh \<and> v \<noteq> []
                   then push_social_event (event_of_ids ise_presence_changed v)
                          presence_changed xbox_live_result_ok (with_buffer b ub g)
                   else with_buffer b ub g)"
    by (auto simp: apply_presence_changed_event_def bind_res_Inr_iff Let_def)
  from worker_frame_with_buffer [OF presence_changed_loop_queue [OF l]] g'
  show ?thesis by simp
qed

lemma worker_frame_title_presence:
  assumes "apply_title_presence_changed X evt b et g = Inr (g', et')"
  shows "worker_frame g' = worker_frame g"
proof -
  have w: "worker_frame (with_buffer b ub1 g) = worker_frame g"
    if "write_user (get_buffer b (m_userBuffer g)) p v = Inr ub1" for p v ub1
    using write_user_queue [OF that] by (rule worker_frame_with_buffer)
  from assms show ?thesis
    by (auto simp: apply_title_presence_changed_def Let_def bind_res_Inr_iff w
        split: option.splits if_splits simp del: with_buffer_fields)
qed

text \<open>
  An application of an event leaves the frame alone, but for its own record among the
  calls. In particular it does not touch the cached queue that the loop of
  \<^verbatim>\<open>process_cached_events\<close> is popping.
\<close>

lemma worker_frame_apply_event:
  assumes "apply_event X evt fresh g = Inr g'"
  shows "worker_frame g' = worker_frame (g\<lparr>calls := calls g @ [Apply_event evt fresh]\<rparr>)"
proof -
  define g0 where "g0 = g\<lparr>calls := calls g @ [Apply_event evt fresh]\<rparr>"
  show ?thesis
  proof (cases "m_inactiveBuffer (m_userBuffer g)")
    case None
    with assms show ?thesis by (simp add: apply_event_def Let_def)
  next
    case (Some b)
    then have ib: "m_inactiveBuffer (m_userBuffer g0) = Some b" by (simp add: g0_def)
    from assms ib obtain g1 et where
      body: "(case event_type evt of
               ise_users_added \<Rightarrow> Inr (apply_users_added_event evt b fresh g0, unknown)
             | ise_users_changed \<Rightarrow>
                 bind_res (apply_users_change_event evt b fresh g0) (\<lambda>g1. Inr (g1, unknown))
             | ise_users_removed \<Rightarrow> Inr (apply_users_removed_event evt b unknown fresh g0)
             | ise_device_presence_changed \<Rightarrow>
                 apply_device_presence_changed_event X evt b fresh unknown g0
             | ise_title_presence_changed \<Rightarrow>
                 apply_title_presence_changed X evt b unknown g0
             | ise_presence_changed \<Rightarrow>
                 bind_res (apply_presence_changed_event X evt b fresh g0) (\<lambda>g1. Inr (g1, unknown))
             | ise_social_relationships_changed \<Rightarrow>
                 bind_res (profiles_changed_loop (users_affected evt) (get_buffer b (m_userBuffer g0)))
                   (\<lambda>ub. Inr (with_buffer b ub g0, profiles_changed))
             | ise_profiles_changed \<Rightarrow>
                 bind_res (profiles_changed_loop (users_affected evt) (get_buffer b (m_userBuffer g0)))
                   (\<lambda>ub. Inr (with_buffer b ub g0, profiles_changed))
             | ise_unknown \<Rightarrow> Inr (g0, unknown)) = Inr (g1, et)"
      and g': "g' = (if fresh then push_social_event evt et xbox_live_result_ok g1 else g1)"
      unfolding apply_event_def Let_def g0_def [symmetric]
      by (auto simp: bind_res_Inr_iff)
    have "worker_frame g1 = worker_frame g0"
    proof (cases "event_type evt")
      case ise_users_added
      with body show ?thesis by auto
    next
      case ise_users_changed
      with body show ?thesis by (auto simp: bind_res_Inr_iff dest: worker_frame_users_change)
    next
      case ise_users_removed
      with body worker_frame_users_removed [of evt b unknown fresh g0] show ?thesis by auto
    next
      case ise_device_presence_changed
      with body show ?thesis by (auto dest: worker_frame_device_presence)
    next
      case ise_title_presence_changed
      with body show ?thesis by (auto dest: worker_frame_title_presence)
    next
      case ise_presence_changed
      with body show ?thesis by (auto simp: bind_res_Inr_iff dest: worker_frame_presence_changed)
    next
      case ise_social_relationships_changed
      with body show ?thesis
        by (auto simp: bind_res_Inr_iff worker_frame_with_buffer dest!: profiles_changed_loop_queue
            simp del: with_buffer_fields)
    next
      case ise_profiles_changed
      with body show ?thesis
        by (auto simp: bind_res_Inr_iff worker_frame_with_buffer dest!: profiles_changed_loop_queue
            simp del: with_buffer_fields)
    next
      case ise_unknown
      with body show ?thesis by auto
    qed
    with g' show ?thesis by (simp add: g0_def)
  qed
qed


lemma fresh_among_applies:
  "filter is_fresh_apply_event cs = filter is_fresh_apply_event (filter is_apply_event cs)"
proof (induction cs)
  case Nil
  then show ?case by simp
next
  case (Cons c cs)
  then show ?case by (cases c) simp_all
qed

lemma worker_frame_fresh:
  "worker_frame g' = worker_frame g \<Longrightarrow>
     filter is_fresh_apply_event (calls g') = filter is_fresh_apply_event (calls g)"
  using fresh_among_applies [of "calls g'"] fresh_among_applies [of "calls g"]
  by (simp add: worker_frame_def)




subsection \<open>The counter of the frame\<close>

lemma apply_event_counts:
  assumes "apply_event X evt fresh g = Inr g'"
  shows "m_numEventsThisFrame g' = m_numEventsThisFrame g"
    and "fresh_applies g' = fresh_applies g + (if fresh then 1 else 0)"
proof -
  from worker_frame_apply_event [OF assms]
  have w: "worker_frame g' = worker_frame (g\<lparr>calls := calls g @ [Apply_event evt fresh]\<rparr>)" .
  then show "m_numEventsThisFrame g' = m_numEventsThisFrame g" by (simp add: worker_frame_def)
  from worker_frame_fresh [OF w]
  show "fresh_applies g' = fresh_applies g + (if fresh then 1 else 0)"
    by (simp add: fresh_applies_def)
qed

lemma below_limit_Suc:
  fixes n :: "32 word"
  assumes "n < NUM_EVENTS_PER_FRAME"
  shows "unat (n + 1) = Suc (unat n)" and "n + 1 \<le> NUM_EVENTS_PER_FRAME"
proof -
  from assms have "unat n < 5" by (simp add: NUM_EVENTS_PER_FRAME_def word_less_nat_alt)
  then show "unat (n + 1) = Suc (unat n)" by (simp add: unat_word_ariths)
  with \<open>unat n < 5\<close> show "n + 1 \<le> NUM_EVENTS_PER_FRAME"
    by (simp add: NUM_EVENTS_PER_FRAME_def word_le_nat_alt)
qed

lemma process_events_counts:
  assumes "process_events X g = Inr (r, g')"
  shows "fresh_applies g' + unat (m_numEventsThisFrame g) =
           fresh_applies g + unat (m_numEventsThisFrame g')"
    and "m_numEventsThisFrame g \<le> NUM_EVENTS_PER_FRAME \<Longrightarrow>
           m_numEventsThisFrame g' \<le> NUM_EVENTS_PER_FRAME"
proof -
  show "fresh_applies g' + unat (m_numEventsThisFrame g) =
           fresh_applies g + unat (m_numEventsThisFrame g')"
  proof (cases "m_internalEventQueue g \<noteq> [] \<and> m_numEventsThisFrame g < NUM_EVENTS_PER_FRAME")
    case False
    with assms show ?thesis by (auto simp: process_events_def Let_def)
  next
    case True
    then obtain evt rest where q: "m_internalEventQueue g = evt # rest"
      by (cases "m_internalEventQueue g") auto
    let ?g0 = "g\<lparr>m_numEventsThisFrame := m_numEventsThisFrame g + 1, m_internalEventQueue := rest\<rparr>"
    from assms True q obtain g1 h where a: "apply_event X evt True ?g0 = Inr g1"
      and g': "g' = g1\<lparr>m_userBuffer := h\<rparr>"
      by (auto simp: process_events_def Let_def bind_res_Inr_iff)
    from apply_event_counts [OF a] g' below_limit_Suc(1) [of "m_numEventsThisFrame g"] True
    show ?thesis by (simp add: fresh_applies_def)
  qed
next
  assume le: "m_numEventsThisFrame g \<le> NUM_EVENTS_PER_FRAME"
  show "m_numEventsThisFrame g' \<le> NUM_EVENTS_PER_FRAME"
  proof (cases "m_internalEventQueue g \<noteq> [] \<and> m_numEventsThisFrame g < NUM_EVENTS_PER_FRAME")
    case False
    with assms le show ?thesis by (auto simp: process_events_def Let_def)
  next
    case True
    then obtain evt rest where q: "m_internalEventQueue g = evt # rest"
      by (cases "m_internalEventQueue g") auto
    let ?g0 = "g\<lparr>m_numEventsThisFrame := m_numEventsThisFrame g + 1, m_internalEventQueue := rest\<rparr>"
    from assms True q obtain g1 h where a: "apply_event X evt True ?g0 = Inr g1"
      and g': "g' = g1\<lparr>m_userBuffer := h\<rparr>"
      by (auto simp: process_events_def Let_def bind_res_Inr_iff)
    from apply_event_counts(1) [OF a] g' below_limit_Suc(2) [of "m_numEventsThisFrame g"] True
    show ?thesis by simp
  qed
qed

lemma apply_cached_events_counts:
  "apply_cached_events X b q g = Inr g' \<Longrightarrow>
     m_numEventsThisFrame g' = m_numEventsThisFrame g \<and> fresh_applies g' = fresh_applies g"
proof (induction q arbitrary: g)
  case Nil
  then show ?case by simp
next
  case (Cons evt q)
  let ?g0 = "with_buffer b ((get_buffer b (m_userBuffer g))\<lparr>socialUserEventQueue := q\<rparr>) g"
  from Cons.prems obtain g1 where a: "apply_event X evt False ?g0 = Inr g1"
    and r: "apply_cached_events X b q g1 = Inr g'"
    by (auto simp: bind_res_Inr_iff)
  from apply_event_counts [OF a] Cons.IH [OF r] show ?case by (simp add: fresh_applies_def)
qed

lemma do_event_work_counts:
  assumes "do_event_work X g = Inr (r, g')"
  shows "fresh_applies g' + unat (m_numEventsThisFrame g) =
           fresh_applies g + unat (m_numEventsThisFrame g')"
    and "m_numEventsThisFrame g \<le> NUM_EVENTS_PER_FRAME \<Longrightarrow>
           m_numEventsThisFrame g' \<le> NUM_EVENTS_PER_FRAME"
proof -
  define g1 where "g1 = g\<lparr>m_socialGraphState := event_processing\<rparr>"
  define cached where "cached =
     (m_isInitialized g1 \<and>
      (case m_inactiveBuffer (m_userBuffer g1) of
         None \<Rightarrow> False
       | Some b \<Rightarrow> socialUserEventQueue (get_buffer b (m_userBuffer g1)) \<noteq> []))"
  have c1: "fresh_applies g1 = fresh_applies g" "m_numEventsThisFrame g1 = m_numEventsThisFrame g"
    by (simp_all add: g1_def fresh_applies_def)
  have both: "fresh_applies g' + unat (m_numEventsThisFrame g) =
           fresh_applies g + unat (m_numEventsThisFrame g') \<and>
        (m_numEventsThisFrame g \<le> NUM_EVENTS_PER_FRAME \<longrightarrow>
           m_numEventsThisFrame g' \<le> NUM_EVENTS_PER_FRAME)"
  proof (cases cached)
    case True
    with assms obtain g2 where p: "process_cached_events X g1 = Inr g2" and g': "g' = g2"
      unfolding do_event_work_def Let_def g1_def [symmetric] cached_def [symmetric]
      by (auto simp: bind_res_Inr_iff)
    from p have "m_numEventsThisFrame g2 = m_numEventsThisFrame g1 \<and> fresh_applies g2 = fresh_applies g1"
      by (auto simp: process_cached_events_def bind_res_Inr_iff fresh_applies_def
          split: option.splits dest!: apply_cached_events_counts)
    with g' c1 show ?thesis by simp
  next
    case False
    show ?thesis
    proof (cases "m_isInitialized g1")
      case True
      with assms False have p: "process_events X (g1\<lparr>m_socialGraphState := normal\<rparr>) = Inr (r, g')"
        unfolding do_event_work_def Let_def g1_def [symmetric] cached_def [symmetric] by simp
      from process_events_counts [OF p] c1 show ?thesis by (simp add: fresh_applies_def)
    next
      case ni: False
      with assms False have "g' = g1\<lparr>m_socialGraphState := normal\<rparr>"
        unfolding do_event_work_def Let_def g1_def [symmetric] cached_def [symmetric] by simp
      with c1 show ?thesis by (simp add: fresh_applies_def)
    qed
  qed
  from both show "fresh_applies g' + unat (m_numEventsThisFrame g) =
           fresh_applies g + unat (m_numEventsThisFrame g')" by blast
  from both show "m_numEventsThisFrame g \<le> NUM_EVENTS_PER_FRAME \<Longrightarrow>
           m_numEventsThisFrame g' \<le> NUM_EVENTS_PER_FRAME" by blast
qed

lemma perform_diff_counts:
  "perform_diff X f g = Inr g' \<Longrightarrow>
     m_numEventsThisFrame g' = m_numEventsThisFrame g \<and> fresh_applies g' = fresh_applies g"
  by (auto simp: perform_diff_def Let_def bind_res_Inr_iff fresh_applies_def split: option.splits)

lemma run_counts:
  "Do_work \<notin> set steps \<Longrightarrow> run X steps (g, ev) = Inr (g', ev') \<Longrightarrow>
     m_numEventsThisFrame g \<le> NUM_EVENTS_PER_FRAME \<Longrightarrow>
     fresh_applies g' + unat (m_numEventsThisFrame g) = fresh_applies g + unat (m_numEventsThisFrame g') \<and>
     m_numEventsThisFrame g' \<le> NUM_EVENTS_PER_FRAME"
proof (induction steps arbitrary: g ev)
  case Nil
  then show ?case by simp
next
  case (Cons a steps)
  from Cons.prems(2) obtain g1 ev1 where s: "run_step X a (g, ev) = Inr (g1, ev1)"
    and r: "run X steps (g1, ev1) = Inr (g', ev')"
    by (auto simp: bind_res_Inr_iff)
  have one: "fresh_applies g1 + unat (m_numEventsThisFrame g) = fresh_applies g + unat (m_numEventsThisFrame g1) \<and>
     m_numEventsThisFrame g1 \<le> NUM_EVENTS_PER_FRAME"
  proof (cases a)
    case Do_event_work
    with s obtain b where "do_event_work X g = Inr (b, g1)" by (auto simp: bind_res_Inr_iff)
    from do_event_work_counts [OF this] Cons.prems(3) show ?thesis by simp
  next
    case Do_work
    with Cons.prems(1) show ?thesis by simp
  next
    case (Push_event e)
    with s Cons.prems(3) show ?thesis by (auto simp: push_internal_event_def fresh_applies_def)
  next
    case (Perform_diff f)
    with s obtain "perform_diff X f g = Inr g1" by (auto simp: bind_res_Inr_iff)
    from perform_diff_counts [OF this] Cons.prems(3) show ?thesis by simp
  qed
  from Cons.prems(1) have "Do_work \<notin> set steps" by simp
  from Cons.IH [OF this r] one show ?case by simp
qed


text \<open>
  C5, as amended. From the return of a \<^verbatim>\<open>do_work\<close>, which sets the counter to 0,
  through any steps of the worker and of the producers up to the next \<^verbatim>\<open>do_work\<close>:
  the counter equals the number of fresh calls of \<^verbatim>\<open>apply_event\<close> made since, it never
  exceeds \<^verbatim>\<open>NUM_EVENTS_PER_FRAME\<close>, and so at most five fresh calls are made. The
  replays of cached events are not counted.
\<close>

theorem at_most_five_fresh_events_per_frame:
  assumes "Do_work \<notin> set steps"
    and "run X steps (snd (snd (do_work socialEvents g0)), events) = Inr (g', events')"
  shows "m_numEventsThisFrame (snd (snd (do_work socialEvents g0))) = 0 \<and>
         length (filter is_fresh_apply_event (calls g')) =
           length (filter is_fresh_apply_event (calls g0)) + unat (m_numEventsThisFrame g') \<and>
         m_numEventsThisFrame g' \<le> NUM_EVENTS_PER_FRAME \<and>
         length (filter is_fresh_apply_event (calls g')) \<le>
           length (filter is_fresh_apply_event (calls g0)) + 5"
proof -
  let ?g = "snd (snd (do_work socialEvents g0))"
  have z: "m_numEventsThisFrame ?g = 0" and c: "calls ?g = calls g0"
    by (auto simp: do_work_def Let_def split: option.splits)
  from run_counts [OF assms] z
  have r: "fresh_applies g' = fresh_applies ?g + unat (m_numEventsThisFrame g')"
    and l: "m_numEventsThisFrame g' \<le> NUM_EVENTS_PER_FRAME" by simp_all
  from l have "unat (m_numEventsThisFrame g') \<le> 5"
    by (simp add: NUM_EVENTS_PER_FRAME_def word_le_nat_alt)
  with r l z c show ?thesis by (simp add: fresh_applies_def)
qed

text \<open>
  The claim as stated counts every call of \<^verbatim>\<open>apply_event\<close>. After six calls of
  \<^verbatim>\<open>add_users\<close>, five steps of the worker and a \<^verbatim>\<open>do_work\<close>, two more steps of the
  worker, with no \<^verbatim>\<open>do_work\<close> between them, make six calls of \<^verbatim>\<open>apply_event\<close>:
  five replays of the cached events and one fresh application.
\<close>

theorem six_applications_in_a_frame_counterexample:
  "(case run sample_collaborators sample_burst (sample_graph, []) of
      Inr s1 \<Rightarrow>
        (case run sample_collaborators [Do_event_work, Do_event_work] s1 of
           Inr s2 \<Rightarrow>
             length (filter is_apply_event (calls (fst s2))) =
               length (filter is_apply_event (calls (fst s1))) + 6
         | Inl e \<Rightarrow> False)
    | Inl e \<Rightarrow> False)"
  by code_simp

theorem at_most_five_fresh_events_per_frame_witness:
  "Do_work \<notin> set (replicate 7 Do_event_work) \<and>
   (\<exists>g' events'.
      run sample_collaborators (replicate 7 Do_event_work)
        (snd (snd (do_work [] (sample_run sample_pushes))), []) = Inr (g', events') \<and>
      m_numEventsThisFrame g' = 5 \<and>
      length (filter is_fresh_apply_event (calls g')) =
        length (filter is_fresh_apply_event (calls (sample_run sample_pushes))) + 5 \<and>
      m_internalEventQueue g' = [event_of_strings ise_users_added [206]])"
proof -
  let ?s = "case run sample_collaborators (replicate 7 Do_event_work)
                   (snd (snd (do_work [] (sample_run sample_pushes))), []) of
              Inr s \<Rightarrow> s | Inl e \<Rightarrow> (sample_graph, [])"
  have 1: "Do_work \<notin> set (replicate 7 Do_event_work)" by simp
  have 2: "run sample_collaborators (replicate 7 Do_event_work)
             (snd (snd (do_work [] (sample_run sample_pushes))), []) = Inr (fst ?s, snd ?s)"
    by code_simp
  have 3: "m_numEventsThisFrame (fst ?s) = 5" by code_simp
  have 4: "m_internalEventQueue (fst ?s) = [event_of_strings ise_users_added [206]]" by code_simp
  from at_most_five_fresh_events_per_frame [OF 1 2] 3
  have 5: "length (filter is_fresh_apply_event (calls (fst ?s))) =
             length (filter is_fresh_apply_event (calls (sample_run sample_pushes))) + 5"
    by simp
  from 1 2 3 4 5 show ?thesis by blast
qed

end
